theory Spec2Isabelle
  imports Main "HOL-Library.Sublist"
begin

section \<open>The lexical token source (encoding/xml)\<close>

text \<open>
  The tree builder of \<^verbatim>\<open>dom.go\<close> pulls its tokens from Go's \<^verbatim>\<open>xml.Decoder\<close>.
  A token is one of the six kinds of \<^verbatim>\<open>xml.Token\<close>. A name is a namespace
  (\<^verbatim>\<open>Space\<close>) and a local part (\<^verbatim>\<open>Local\<close>); an attribute is a name and a value.
  Go strings and byte slices are byte sequences, here \<^typ>\<open>string\<close>.
\<close>

record xml_Name =
  Space :: string
  Local :: string

record xml_Attr =
  Attr_Name :: xml_Name
  Attr_Value :: string

datatype token =
    xml_StartElement xml_Name "xml_Attr list"
  | xml_EndElement xml_Name
  | xml_CharData string
  | xml_Comment string
  | xml_ProcInst string string
  | xml_Directive string

text \<open>
  The errors a pull can report: \<^verbatim>\<open>io.EOF\<close> at the end of the input, or any other
  error (a syntax error, a failed read), identified by its message.
\<close>

datatype error = io_EOF | OtherError string

text \<open>
  The decoder is a black box to the builder. Its state is the sequence of tokens it will
  still deliver and the error it reports once they are used up. \<^verbatim>\<open>Token()\<close> returns
  the pair \<^verbatim>\<open>(t, err)\<close>: the next token and no error, or no token and the error.
\<close>

record Decoder =
  pending :: "token list"
  final :: error

definition Token :: "Decoder \<Rightarrow> (token option \<times> error option) \<times> Decoder" where
  "Token p =
     (case pending p of
        [] \<Rightarrow> ((None, Some (final p)), p)
      | t # ts \<Rightarrow> ((Some t, None), p\<lparr>pending := ts\<rparr>))"

section \<open>The data model\<close>

text \<open>
  Nodes are heap objects that point at each other (\<^verbatim>\<open>Parent\<close>, \<^verbatim>\<open>Children\<close>) and
  are updated in place, so the model has an explicit store: a list of nodes, a pointer
  being an index into it and \<^verbatim>\<open>nil\<close> being \<^term>\<open>None\<close>. \<^verbatim>\<open>new(Node)\<close> appends a
  node to the store. One Document is allocated by a parse; a node's back-reference to it
  is the one value of \<open>doc_ref\<close>.

  A non-nil pointer of Go points at an object. In the model every pointer of a state the
  builder reaches is an index of the store (lemma \<open>state_inv_run\<close>), so the reads and
  updates by index below are never out of range.
\<close>

text \<open>
  Modelled from the spec: the struct declarations of \<^verbatim>\<open>Attribute\<close>, \<^verbatim>\<open>Node\<close> and
  \<^verbatim>\<open>Document\<close> are not in \<^verbatim>\<open>dom.go\<close>. The fields are those of the specification's
  data model, under the names by which the builder assigns them; \<^verbatim>\<open>new\<close> gives each
  its zero value.
\<close>

type_synonym addr = nat

datatype doc_ref = DocRef

record Attribute =
  Attribute_Name :: string
  Attribute_Value :: string

record Node =
  Document :: doc_ref
  Parent :: "addr option"
  Name :: string
  Attributes :: "Attribute list"
  Text :: string
  Children :: "addr list"

record Document =
  Root :: "addr option"
  ProcInst :: string
  Directives :: "string list"

definition new_Node :: Node where
  "new_Node = \<lparr>Document = DocRef, Parent = None, Name = [], Attributes = [],
     Text = [], Children = []\<rparr>"

definition new_Document :: Document where
  "new_Document = \<lparr>Root = None, ProcInst = [], Directives = []\<rparr>"

record domParserSettings =
  preserveWhitespace :: bool

definition NewDOMParser :: domParserSettings where
  "NewDOMParser = \<lparr>preserveWhitespace = False\<rparr>"

definition PreserveWhitespace :: "domParserSettings \<Rightarrow> bool \<Rightarrow> domParserSettings" where
  "PreserveWhitespace s f = s\<lparr>preserveWhitespace := f\<rparr>"

section \<open>Constants and library functions\<close>

definition xmlPrefix :: string where "xmlPrefix = ''xml''"
definition xmlUrl :: string where "xmlUrl = ''http://www.w3.org/XML/1998/namespace''"
definition xmlnsPrefix :: string where "xmlnsPrefix = ''xmlns''"
definition xmlnsUrl :: string where "xmlnsUrl = ''http://www.w3.org/2000/xmlns''"
definition xlinkPrefix :: string where "xlinkPrefix = ''xlink''"
definition xlinkUrl :: string where "xlinkUrl = ''http://www.w3.org/1999/xlink''"
definition xsiPrefix :: string where "xsiPrefix = ''xsi''"
definition xsiUrl :: string where "xsiUrl = ''http://www.w3.org/2001/XMLSchema-instance''"

text \<open>\<^verbatim>\<open>fmt.Sprintf("%s:%s", a, b)\<close>\<close>

definition Sprintf_colon :: "string \<Rightarrow> string \<Rightarrow> string" where
  "Sprintf_colon a b = a @ '':'' @ b"

text \<open>
  \<^verbatim>\<open>bytes.TrimSpace\<close> slices off all leading and trailing white space, as defined
  by Unicode. On UTF-8 bytes a white space character is one of the byte sequences of
  \<open>unicodeSpace\<close>: the six ASCII ones, U+0085, U+00A0, U+1680, U+2000 to U+200A,
  U+2028, U+2029, U+202F, U+205F and U+3000.
\<close>

definition unicodeSpace :: "string list" where
  "unicodeSpace =
     [[CHR 0x09], [CHR 0x0A], [CHR 0x0B], [CHR 0x0C], [CHR 0x0D], [CHR 0x20],
      [CHR 0xC2, CHR 0x85], [CHR 0xC2, CHR 0xA0],
      [CHR 0xE1, CHR 0x9A, CHR 0x80],
      [CHR 0xE2, CHR 0x80, CHR 0x80], [CHR 0xE2, CHR 0x80, CHR 0x81],
      [CHR 0xE2, CHR 0x80, CHR 0x82], [CHR 0xE2, CHR 0x80, CHR 0x83],
      [CHR 0xE2, CHR 0x80, CHR 0x84], [CHR 0xE2, CHR 0x80, CHR 0x85],
      [CHR 0xE2, CHR 0x80, CHR 0x86], [CHR 0xE2, CHR 0x80, CHR 0x87],
      [CHR 0xE2, CHR 0x80, CHR 0x88], [CHR 0xE2, CHR 0x80, CHR 0x89],
      [CHR 0xE2, CHR 0x80, CHR 0x8A],
      [CHR 0xE2, CHR 0x80, CHR 0xA8], [CHR 0xE2, CHR 0x80, CHR 0xA9],
      [CHR 0xE2, CHR 0x80, CHR 0xAF],
      [CHR 0xE2, CHR 0x81, CHR 0x9F],
      [CHR 0xE3, CHR 0x80, CHR 0x80]]"

text \<open>
  \<open>trimPrefixes ws s\<close> drops from the front of \<open>s\<close>, as long as there is one, a
  sequence of \<open>ws\<close>.
\<close>

function trimPrefixes :: "string list \<Rightarrow> string \<Rightarrow> string" where
  "trimPrefixes ws s =
     (case find (\<lambda>w. w \<noteq> [] \<and> take (length w) s = w) ws of
        None \<Rightarrow> s
      | Some w \<Rightarrow> trimPrefixes ws (drop (length w) s))"
  by pat_completeness auto
termination
proof (relation "measure (\<lambda>(ws, s). length s)")
  show "wf (measure (\<lambda>(ws, s). length s))" by simp
next
  fix ws :: "string list" and s w :: string
  assume "find (\<lambda>w. w \<noteq> [] \<and> take (length w) s = w) ws = Some w"
  then have w: "w \<noteq> []" "take (length w) s = w"
    by (auto simp: find_Some_iff)
  then have "s \<noteq> []" by auto
  with w show "((ws, drop (length w) s), (ws, s)) \<in> measure (\<lambda>(ws, s). length s)"
    by (cases w) auto
qed

definition TrimSpace :: "string \<Rightarrow> string" where
  "TrimSpace s = rev (trimPrefixes (map rev unicodeSpace) (rev (trimPrefixes unicodeSpace s)))"

section \<open>The tree builder\<close>

text \<open>
  The body of the loop over a start-element's attributes: the stored name of one
  attribute.
\<close>

definition attrName :: "xml_Attr \<Rightarrow> string" where
  "attrName attr =
     (if Space (Attr_Name attr) \<noteq> [] then
        (let ns = Space (Attr_Name attr) in
         if ns = xmlnsUrl then Sprintf_colon xmlnsPrefix (Local (Attr_Name attr))
         else if ns = xmlUrl then Sprintf_colon xmlPrefix (Local (Attr_Name attr))
         else if ns = xlinkUrl then Sprintf_colon xlinkPrefix (Local (Attr_Name attr))
         else if ns = xsiUrl then Sprintf_colon xsiPrefix (Local (Attr_Name attr))
         else Sprintf_colon (Space (Attr_Name attr)) (Local (Attr_Name attr)))
      else Local (Attr_Name attr))"

definition appendAttr :: "Attribute list \<Rightarrow> xml_Attr \<Rightarrow> Attribute list" where
  "appendAttr as attr =
     as @ [\<lparr>Attribute_Name = attrName attr, Attribute_Value = Attr_Value attr\<rparr>]"

text \<open>
  The state of the loop: the Document, the store of nodes and the cursor \<^verbatim>\<open>e\<close>.
\<close>

record state =
  doc :: Document
  heap :: "Node list"
  e :: "addr option"

datatype panic = NilPointerDereference

text \<open>
  One pass through the \<^verbatim>\<open>switch\<close>. \<^verbatim>\<open>stringifyProcInst\<close> and
  \<^verbatim>\<open>stringifyDirective\<close> are helpers of the package defined outside \<^verbatim>\<open>dom.go\<close>;
  they are parameters \<open>sp\<close> and \<open>sd\<close> here. An end-element reads \<^verbatim>\<open>e.Parent\<close>
  without a check, which panics when \<^verbatim>\<open>e\<close> is nil.
\<close>

definition handleToken ::
  "domParserSettings \<Rightarrow> (string \<Rightarrow> string \<Rightarrow> string) \<Rightarrow> (string \<Rightarrow> string) \<Rightarrow>
   token \<Rightarrow> state \<Rightarrow> panic + state" where
  "handleToken s sp sd t st =
     (case t of
        xml_StartElement name attrs \<Rightarrow>
          (let el = length (heap st);
               node = new_Node\<lparr>Document := DocRef, Parent := e st, Name := Local name\<rparr>;
               node = node\<lparr>Attributes := foldl appendAttr (Attributes node) attrs\<rparr>;
               h = heap st @ [node];
               h = (case e st of
                      None \<Rightarrow> h
                    | Some p \<Rightarrow> h[p := (h ! p)\<lparr>Children := Children (h ! p) @ [el]\<rparr>]);
               d = (if Root (doc st) = None then (doc st)\<lparr>Root := Some el\<rparr> else doc st)
           in Inr \<lparr>doc = d, heap = h, e = Some el\<rparr>)
      | xml_EndElement name \<Rightarrow>
          (case e st of
             None \<Rightarrow> Inl NilPointerDereference
           | Some a \<Rightarrow> Inr (st\<lparr>e := Parent (heap st ! a)\<rparr>))
      | xml_CharData c \<Rightarrow>
          (case e st of
             None \<Rightarrow> Inr st
           | Some a \<Rightarrow>
               if preserveWhitespace s
               then Inr (st\<lparr>heap := (heap st)[a := (heap st ! a)\<lparr>Text := c\<rparr>]\<rparr>)
               else Inr (st\<lparr>heap := (heap st)[a := (heap st ! a)\<lparr>Text := TrimSpace c\<rparr>]\<rparr>))
      | xml_ProcInst target inst \<Rightarrow>
          Inr (st\<lparr>doc := (doc st)\<lparr>ProcInst := sp target inst\<rparr>\<rparr>)
      | xml_Directive dir \<Rightarrow>
          Inr (st\<lparr>doc := (doc st)\<lparr>Directives := Directives (doc st) @ [sd dir]\<rparr>\<rparr>)
      | xml_Comment c \<Rightarrow> Inr st)"

text \<open>
  The loop \<^verbatim>\<open>for t != nil { switch ...; t, err = p.Token() }\<close>. It returns the last
  \<^verbatim>\<open>err\<close> and the state, or the panic.
\<close>

function loop ::
  "domParserSettings \<Rightarrow> (string \<Rightarrow> string \<Rightarrow> string) \<Rightarrow> (string \<Rightarrow> string) \<Rightarrow>
   token option \<Rightarrow> error option \<Rightarrow> Decoder \<Rightarrow> state \<Rightarrow> panic + (error option \<times> state)" where
  "loop s sp sd t err p st =
     (case t of
        None \<Rightarrow> Inr (err, st)
      | Some tok \<Rightarrow>
          (case handleToken s sp sd tok st of
             Inl pn \<Rightarrow> Inl pn
           | Inr st' \<Rightarrow> loop s sp sd (fst (fst (Token p))) (snd (fst (Token p))) (snd (Token p)) st'))"
  by pat_completeness auto
termination
  by (relation "measure (\<lambda>(s, sp, sd, t, err, p, st).
        length (pending p) + (case t of None \<Rightarrow> 0 | Some _ \<Rightarrow> 1))")
     (auto simp: Token_def split: list.splits)

text \<open>
  \<^verbatim>\<open>Parse\<close> returns \<^verbatim>\<open>(*Document, error)\<close>. The Document returned is the record
  together with the store its \<^verbatim>\<open>Root\<close> points into.
\<close>

definition init :: state where
  "init = \<lparr>doc = new_Document, heap = [], e = None\<rparr>"

definition Parse ::
  "domParserSettings \<Rightarrow> (string \<Rightarrow> string \<Rightarrow> string) \<Rightarrow> (string \<Rightarrow> string) \<Rightarrow>
   Decoder \<Rightarrow> panic + ((Document \<times> Node list) option \<times> error option)" where
  "Parse s sp sd p =
     (case Token p of
        ((t, err), p') \<Rightarrow>
          if err \<noteq> None then Inr (None, err)
          else
            (case loop s sp sd t err p' init of
               Inl pn \<Rightarrow> Inl pn
             | Inr (err', st) \<Rightarrow>
                 if err' \<noteq> Some io_EOF then Inr (None, err')
                 else Inr (Some (doc st, heap st), None)))"

section \<open>Notions used to state the properties\<close>

text \<open>
  The loop body folded over a sequence of tokens: the state after the tokens \<open>ts\<close>,
  or the panic of the first token that panics. Lemma \<open>loop_run\<close> relates it to
  \<open>loop\<close>, lemma \<open>Parse_run\<close> to \<open>Parse\<close>.
\<close>

fun run ::
  "domParserSettings \<Rightarrow> (string \<Rightarrow> string \<Rightarrow> string) \<Rightarrow> (string \<Rightarrow> string) \<Rightarrow>
   token list \<Rightarrow> state \<Rightarrow> panic + state" where
  "run s sp sd [] st = Inr st"
| "run s sp sd (t # ts) st =
     (case handleToken s sp sd t st of
        Inl pn \<Rightarrow> Inl pn
      | Inr st' \<Rightarrow> run s sp sd ts st')"

text \<open>The start-element tokens of a sequence, in order: names and attribute lists.\<close>

fun starts :: "token list \<Rightarrow> (xml_Name \<times> xml_Attr list) list" where
  "starts [] = []"
| "starts (xml_StartElement name attrs # ts) = (name, attrs) # starts ts"
| "starts (t # ts) = starts ts"

text \<open>The directive and the processing-instruction tokens of a sequence, in order.\<close>

fun directives :: "token list \<Rightarrow> string list" where
  "directives [] = []"
| "directives (xml_Directive dir # ts) = dir # directives ts"
| "directives (t # ts) = directives ts"

fun procinsts :: "token list \<Rightarrow> (string \<times> string) list" where
  "procinsts [] = []"
| "procinsts (xml_ProcInst target inst # ts) = (target, inst) # procinsts ts"
| "procinsts (t # ts) = procinsts ts"

text \<open>The five kinds of token the \<^verbatim>\<open>switch\<close> has a case for.\<close>

fun handled :: "token \<Rightarrow> bool" where
  "handled (xml_StartElement name attrs) = True"
| "handled (xml_EndElement name) = True"
| "handled (xml_CharData c) = True"
| "handled (xml_ProcInst target inst) = True"
| "handled (xml_Directive dir) = True"
| "handled t = False"

text \<open>
  A sequence is balanced from \<open>d\<close> open elements when every end-element in it finds
  an element still open. Names are not compared: the builder does not look at the name
  of an end-element.
\<close>

fun balanced_from :: "nat \<Rightarrow> token list \<Rightarrow> bool" where
  "balanced_from d [] = True"
| "balanced_from d (xml_StartElement name attrs # ts) = balanced_from (Suc d) ts"
| "balanced_from d (xml_EndElement name # ts) =
     (case d of 0 \<Rightarrow> False | Suc d' \<Rightarrow> balanced_from d' ts)"
| "balanced_from d (t # ts) = balanced_from d ts"

definition balanced :: "token list \<Rightarrow> bool" where
  "balanced ts = balanced_from 0 ts"

text \<open>
  A sequence is well nested from a stack of open names when every end-element closes
  the element opened last, by its name. This is what the decoder checks.
\<close>

fun nested_from :: "xml_Name list \<Rightarrow> token list \<Rightarrow> bool" where
  "nested_from stk [] = True"
| "nested_from stk (xml_StartElement name attrs # ts) = nested_from (name # stk) ts"
| "nested_from stk (xml_EndElement name # ts) =
     (case stk of [] \<Rightarrow> False | n # stk' \<Rightarrow> n = name \<and> nested_from stk' ts)"
| "nested_from stk (t # ts) = nested_from stk ts"

text \<open>\<open>chain h c n\<close>: following \<open>Parent\<close> from the pointer \<open>c\<close> reaches nil in \<open>n\<close> steps.\<close>

fun chain :: "Node list \<Rightarrow> addr option \<Rightarrow> nat \<Rightarrow> bool" where
  "chain h None n = (n = 0)"
| "chain h (Some a) 0 = False"
| "chain h (Some a) (Suc n) = (a < length h \<and> chain h (Parent (h ! a)) n)"

text \<open>The Attribute stored for an attribute of a start-element.\<close>

definition convAttr :: "xml_Attr \<Rightarrow> Attribute" where
  "convAttr attr = \<lparr>Attribute_Name = attrName attr, Attribute_Value = Attr_Value attr\<rparr>"

definition reserved :: "string \<Rightarrow> bool" where
  "reserved ns \<longleftrightarrow> ns = xmlnsUrl \<or> ns = xmlUrl \<or> ns = xlinkUrl \<or> ns = xsiUrl"

text \<open>
  The shape of the store. Nodes are numbered in the order of their creation, which is
  the order of the start-elements in the document. A parent is older than its child,
  and the children of a node are exactly the nodes whose \<open>Parent\<close> it is, each once,
  in the order of their creation.
\<close>

definition tree_inv :: "Node list \<Rightarrow> bool" where
  "tree_inv h \<longleftrightarrow>
     (\<forall>c<length h. \<forall>p. Parent (h ! c) = Some p \<longrightarrow> p < c) \<and>
     (\<forall>p<length h. Children (h ! p) = filter (\<lambda>c. Parent (h ! c) = Some p) [0..<length h])"

definition cursor_ok :: "state \<Rightarrow> bool" where
  "cursor_ok st \<longleftrightarrow> (\<forall>a. e st = Some a \<longrightarrow> a < length (heap st))"

definition state_inv :: "state \<Rightarrow> bool" where
  "state_inv st \<longleftrightarrow>
     tree_inv (heap st) \<and> cursor_ok st \<and>
     Root (doc st) = (if heap st = [] then None else Some 0)"

text \<open>The nodes of the tree under \<open>r\<close>: those reached from \<open>r\<close> through \<open>Children\<close>.\<close>

inductive inTree :: "Node list \<Rightarrow> addr \<Rightarrow> addr \<Rightarrow> bool" for h :: "Node list" and r :: addr where
  root: "inTree h r r"
| child: "inTree h r p \<Longrightarrow> c \<in> set (Children (h ! p)) \<Longrightarrow> inTree h r c"

text \<open>
  The prefix a start-element declares for a namespace: the local name of its attribute
  \<^verbatim>\<open>xmlns:prefix="uri"\<close>. The builder has no such notion; the definition follows the
  specification's words "the URI's own declared prefix" and serves to compare them with
  what the builder stores.
\<close>

definition spec_declaredPrefix :: "xml_Attr list \<Rightarrow> string \<Rightarrow> string option" where
  "spec_declaredPrefix attrs uri =
     map_option (\<lambda>a. Local (Attr_Name a))
       (find (\<lambda>a. Space (Attr_Name a) = ''xmlns'' \<and> Attr_Value a = uri) attrs)"

section \<open>Concrete inputs\<close>

text \<open>Instances of the two helper parameters, for the concrete examples.\<close>

definition sample_sp :: "string \<Rightarrow> string \<Rightarrow> string" where
  "sample_sp target inst = ''<?'' @ target @ '' '' @ inst @ ''?>''"

definition sample_sd :: "string \<Rightarrow> string" where
  "sample_sd dir = ''<!'' @ dir @ ''>''"

text \<open>
  A start-element that declares the prefix \<open>foo\<close> for a namespace of its own and
  uses it on an attribute, as the decoder delivers it: the declaration keeps the space
  \<open>xmlns\<close>, the attribute carries the namespace URI.
\<close>

definition example_ns :: "token list" where
  "example_ns =
     [xml_StartElement \<lparr>Space = [], Local = ''root''\<rparr>
        [\<lparr>Attr_Name = \<lparr>Space = ''xmlns'', Local = ''foo''\<rparr>, Attr_Value = ''http://example.com/foo''\<rparr>,
         \<lparr>Attr_Name = \<lparr>Space = ''http://example.com/foo'', Local = ''bar''\<rparr>, Attr_Value = ''X''\<rparr>],
      xml_EndElement \<lparr>Space = [], Local = ''root''\<rparr>]"

definition example_ns_heap :: "Node list" where
  "example_ns_heap =
     [\<lparr>Document = DocRef, Parent = None, Name = ''root'',
       Attributes =
         [\<lparr>Attribute_Name = ''xmlns:foo'', Attribute_Value = ''http://example.com/foo''\<rparr>,
          \<lparr>Attribute_Name = ''http://example.com/foo:bar'', Attribute_Value = ''X''\<rparr>],
       Text = [], Children = []\<rparr>]"

text \<open>
  A start-element with an attribute in each of the four reserved namespaces, a
  declaration and an attribute without a namespace.
\<close>

definition example_reserved :: "token list" where
  "example_reserved =
     [xml_StartElement \<lparr>Space = ''http://www.w3.org/2000/svg'', Local = ''root''\<rparr>
        [\<lparr>Attr_Name = \<lparr>Space = ''xmlns'', Local = ''xlink''\<rparr>,
           Attr_Value = ''http://www.w3.org/1999/xlink''\<rparr>,
         \<lparr>Attr_Name = \<lparr>Space = ''http://www.w3.org/1999/xlink'', Local = ''href''\<rparr>,
           Attr_Value = ''https://github.com/subchen/go-xmldom''\<rparr>,
         \<lparr>Attr_Name = \<lparr>Space = ''http://www.w3.org/XML/1998/namespace'', Local = ''lang''\<rparr>,
           Attr_Value = ''en''\<rparr>,
         \<lparr>Attr_Name = \<lparr>Space = ''http://www.w3.org/2001/XMLSchema-instance'', Local = ''type''\<rparr>,
           Attr_Value = ''string''\<rparr>,
         \<lparr>Attr_Name = \<lparr>Space = ''http://www.w3.org/2000/xmlns'', Local = ''x''\<rparr>,
           Attr_Value = ''y''\<rparr>,
         \<lparr>Attr_Name = \<lparr>Space = [], Local = ''id''\<rparr>, Attr_Value = '' 7 ''\<rparr>],
      xml_EndElement \<lparr>Space = ''http://www.w3.org/2000/svg'', Local = ''root''\<rparr>]"

definition example_reserved_heap :: "Node list" where
  "example_reserved_heap =
     [\<lparr>Document = DocRef, Parent = None, Name = ''root'',
       Attributes =
         [\<lparr>Attribute_Name = ''xmlns:xlink'', Attribute_Value = ''http://www.w3.org/1999/xlink''\<rparr>,
          \<lparr>Attribute_Name = ''xlink:href'', Attribute_Value = ''https://github.com/subchen/go-xmldom''\<rparr>,
          \<lparr>Attribute_Name = ''xml:lang'', Attribute_Value = ''en''\<rparr>,
          \<lparr>Attribute_Name = ''xsi:type'', Attribute_Value = ''string''\<rparr>,
          \<lparr>Attribute_Name = ''xmlns:x'', Attribute_Value = ''y''\<rparr>,
          \<lparr>Attribute_Name = ''id'', Attribute_Value = '' 7 ''\<rparr>],
       Text = [], Children = []\<rparr>]"

text \<open>
  An input of the shape the whitespace tests of \<^verbatim>\<open>dom_test.go\<close> use: a processing
  instruction, a line break, and \<^verbatim>\<open><foo> bar </foo>\<close>.
\<close>

definition example_ws :: "token list" where
  "example_ws =
     [xml_ProcInst ''xml'' ''version=1.0'', xml_CharData [CHR 0x0A],
      xml_StartElement \<lparr>Space = [], Local = ''foo''\<rparr> [],
      xml_CharData '' bar '',
      xml_EndElement \<lparr>Space = [], Local = ''foo''\<rparr>]"

text \<open>An element that is open and already has a text.\<close>

definition example_open :: "token list" where
  "example_open = [xml_StartElement \<lparr>Space = [], Local = ''foo''\<rparr> [], xml_CharData ''old'']"

definition example_open_state :: "string \<Rightarrow> state" where
  "example_open_state txt =
     \<lparr>doc = \<lparr>Root = Some 0, ProcInst = [], Directives = []\<rparr>,
      heap = [\<lparr>Document = DocRef, Parent = None, Name = ''foo'', Attributes = [],
               Text = txt, Children = []\<rparr>],
      e = Some 0\<rparr>"

text \<open>Two processing instructions and two directives around an element.\<close>

definition example_prolog :: "token list" where
  "example_prolog =
     [xml_ProcInst ''xml'' ''version=1.0'', xml_Directive ''DOCTYPE a'',
      xml_ProcInst ''style'' ''href=a.css'',
      xml_StartElement \<lparr>Space = [], Local = ''a''\<rparr> [],
      xml_EndElement \<lparr>Space = [], Local = ''a''\<rparr>,
      xml_Directive ''ELEMENT b'']"

text \<open>An element left open when the source fails.\<close>

definition example_cut :: "token list" where
  "example_cut =
     [xml_StartElement \<lparr>Space = [], Local = ''a''\<rparr> [], xml_CharData ''text'']"

text \<open>
  The tokens of \<^verbatim>\<open><a x="1" y="2"><b/>t<c><d/></c></a><g/>\<close>, and the store
  the builder makes of them.
\<close>

definition example_tree :: "token list" where
  "example_tree =
     [xml_StartElement \<lparr>Space = [], Local = ''a''\<rparr>
        [\<lparr>Attr_Name = \<lparr>Space = [], Local = ''x''\<rparr>, Attr_Value = ''1''\<rparr>,
         \<lparr>Attr_Name = \<lparr>Space = [], Local = ''y''\<rparr>, Attr_Value = ''2''\<rparr>],
      xml_StartElement \<lparr>Space = [], Local = ''b''\<rparr> [],
      xml_EndElement \<lparr>Space = [], Local = ''b''\<rparr>,
      xml_CharData ''t'',
      xml_StartElement \<lparr>Space = [], Local = ''c''\<rparr> [],
      xml_StartElement \<lparr>Space = [], Local = ''d''\<rparr> [],
      xml_EndElement \<lparr>Space = [], Local = ''d''\<rparr>,
      xml_EndElement \<lparr>Space = [], Local = ''c''\<rparr>,
      xml_EndElement \<lparr>Space = [], Local = ''a''\<rparr>,
      xml_StartElement \<lparr>Space = [], Local = ''g''\<rparr> [],
      xml_EndElement \<lparr>Space = [], Local = ''g''\<rparr>]"

definition example_tree_heap :: "Node list" where
  "example_tree_heap =
     [\<lparr>Document = DocRef, Parent = None, Name = ''a'',
       Attributes = [\<lparr>Attribute_Name = ''x'', Attribute_Value = ''1''\<rparr>,
                     \<lparr>Attribute_Name = ''y'', Attribute_Value = ''2''\<rparr>],
       Text = ''t'', Children = [1, 2]\<rparr>,
      \<lparr>Document = DocRef, Parent = Some 0, Name = ''b'', Attributes = [], Text = [], Children = []\<rparr>,
      \<lparr>Document = DocRef, Parent = Some 0, Name = ''c'', Attributes = [], Text = [], Children = [3]\<rparr>,
      \<lparr>Document = DocRef, Parent = Some 2, Name = ''d'', Attributes = [], Text = [], Children = []\<rparr>,
      \<lparr>Document = DocRef, Parent = None, Name = ''g'', Attributes = [], Text = [], Children = []\<rparr>]"

section \<open>The loop as a fold, and one pass of the switch\<close>

declare loop.simps [simp del]

lemma loop_run:
  "loop s sp sd (Some t) err p st =
     (case run s sp sd (t # pending p) st of
        Inl pn \<Rightarrow> Inl pn
      | Inr st' \<Rightarrow> Inr (Some (final p), st'))"
proof (induction "pending p" arbitrary: t err p st)
  case Nil
  then show ?case
    by (simp add: loop.simps [of _ _ _ "Some t"] loop.simps [of _ _ _ None] Token_def
        split: sum.splits)
next
  case (Cons u us)
  have "us = pending (p\<lparr>pending := us\<rparr>)" by simp
  from Cons.hyps(1) [OF this] Cons.hyps(2) [symmetric] show ?case
    by (simp add: loop.simps [of _ _ _ "Some t"] Token_def split: sum.splits)
qed

lemma Parse_run:
  "Parse s sp sd p =
     (case pending p of
        [] \<Rightarrow> Inr (None, Some (final p))
      | t # ts \<Rightarrow>
          (case run s sp sd (t # ts) init of
             Inl pn \<Rightarrow> Inl pn
           | Inr st \<Rightarrow>
               if final p = io_EOF then Inr (Some (doc st, heap st), None)
               else Inr (None, Some (final p))))"
  by (auto simp: Parse_def Token_def loop_run split: list.splits sum.splits)

lemma run_append:
  "run s sp sd (ts @ us) st =
     (case run s sp sd ts st of Inl pn \<Rightarrow> Inl pn | Inr st' \<Rightarrow> run s sp sd us st')"
  by (induction ts arbitrary: st) (auto split: sum.splits)

lemma foldl_appendAttr: "foldl appendAttr as attrs = as @ map convAttr attrs"
  by (induction attrs arbitrary: as) (simp_all add: appendAttr_def convAttr_def)

lemma handle_Start:
  "handleToken s sp sd (xml_StartElement name attrs) st =
     Inr \<lparr>doc = (if Root (doc st) = None then (doc st)\<lparr>Root := Some (length (heap st))\<rparr> else doc st),
          heap = (case e st of
                    None \<Rightarrow> heap st @ [\<lparr>Document = DocRef, Parent = None, Name = Local name,
                              Attributes = map convAttr attrs, Text = [], Children = []\<rparr>]
                  | Some p \<Rightarrow> (heap st @ [\<lparr>Document = DocRef, Parent = Some p, Name = Local name,
                              Attributes = map convAttr attrs, Text = [], Children = []\<rparr>])
                      [p := ((heap st @ [\<lparr>Document = DocRef, Parent = Some p, Name = Local name,
                              Attributes = map convAttr attrs, Text = [], Children = []\<rparr>]) ! p)
                         \<lparr>Children := Children ((heap st @ [\<lparr>Document = DocRef, Parent = Some p, Name = Local name,
                              Attributes = map convAttr attrs, Text = [], Children = []\<rparr>]) ! p) @ [length (heap st)]\<rparr>]),
          e = Some (length (heap st))\<rparr>"
  by (simp add: handleToken_def Let_def new_Node_def foldl_appendAttr split: option.splits)

lemma nth_list_update_total:
  "xs[i := x] ! j = (if i = j \<and> j < length xs then x else xs ! j)"
  by (cases "i < length xs") (auto simp: nth_list_update list_update_beyond)

lemma handle_End:
  "handleToken s sp sd (xml_EndElement name) st =
     (case e st of None \<Rightarrow> Inl NilPointerDereference
      | Some a \<Rightarrow> Inr (st\<lparr>e := Parent (heap st ! a)\<rparr>))"
  by (simp add: handleToken_def)

lemma handle_CharData:
  "handleToken s sp sd (xml_CharData c) st =
     (case e st of None \<Rightarrow> Inr st
      | Some a \<Rightarrow> Inr (st\<lparr>heap := (heap st)
          [a := (heap st ! a)\<lparr>Text := if preserveWhitespace s then c else TrimSpace c\<rparr>]\<rparr>))"
  by (simp add: handleToken_def split: option.splits)

lemma handle_Comment: "handleToken s sp sd (xml_Comment c) st = Inr st"
  by (simp add: handleToken_def)

lemma handle_ProcInst:
  "handleToken s sp sd (xml_ProcInst target inst) st =
     Inr (st\<lparr>doc := (doc st)\<lparr>ProcInst := sp target inst\<rparr>\<rparr>)"
  by (simp add: handleToken_def)

lemma handle_Directive:
  "handleToken s sp sd (xml_Directive dir) st =
     Inr (st\<lparr>doc := (doc st)\<lparr>Directives := Directives (doc st) @ [sd dir]\<rparr>\<rparr>)"
  by (simp add: handleToken_def)

lemmas handle_simps =
  handle_Start handle_End handle_CharData handle_Comment handle_ProcInst handle_Directive

lemma handle_frame:
  assumes "handleToken s sp sd t st = Inr st'"
  shows "length (heap st) \<le> length (heap st')"
    and "a < length (heap st) \<Longrightarrow> Parent (heap st' ! a) = Parent (heap st ! a)"
    and "a < length (heap st) \<Longrightarrow> Name (heap st' ! a) = Name (heap st ! a)"
    and "a < length (heap st) \<Longrightarrow> Attributes (heap st' ! a) = Attributes (heap st ! a)"
    and "a < length (heap st) \<Longrightarrow> Document (heap st' ! a) = Document (heap st ! a)"
proof -
  have "length (heap st) \<le> length (heap st') \<and>
    (a < length (heap st) \<longrightarrow>
      Parent (heap st' ! a) = Parent (heap st ! a) \<and>
      Name (heap st' ! a) = Name (heap st ! a) \<and>
      Attributes (heap st' ! a) = Attributes (heap st ! a) \<and>
      Document (heap st' ! a) = Document (heap st ! a))"
  proof (cases t)
    case (xml_StartElement name attrs)
    with assms show ?thesis
      by (cases "e st") (auto simp: handle_Start nth_list_update_total nth_append)
  next
    case (xml_EndElement name)
    with assms show ?thesis by (auto simp: handle_End split: option.splits)
  next
    case (xml_CharData c)
    with assms show ?thesis
      by (cases "e st") (auto simp: handle_CharData nth_list_update_total)
  next
    case (xml_Comment c)
    with assms show ?thesis by (auto simp: handle_Comment)
  next
    case (xml_ProcInst target inst)
    with assms show ?thesis by (auto simp: handle_ProcInst)
  next
    case (xml_Directive dir)
    with assms show ?thesis by (auto simp: handle_Directive)
  qed
  then show "length (heap st) \<le> length (heap st')"
    and "a < length (heap st) \<Longrightarrow> Parent (heap st' ! a) = Parent (heap st ! a)"
    and "a < length (heap st) \<Longrightarrow> Name (heap st' ! a) = Name (heap st ! a)"
    and "a < length (heap st) \<Longrightarrow> Attributes (heap st' ! a) = Attributes (heap st ! a)"
    and "a < length (heap st) \<Longrightarrow> Document (heap st' ! a) = Document (heap st ! a)"
    by simp_all
qed

section \<open>Invariants of the store\<close>

lemma tree_inv_extend:
  assumes inv: "tree_inv h"
    and len: "length h' = Suc (length h)"
    and par: "\<And>c. c < length h \<Longrightarrow> Parent (h' ! c) = Parent (h ! c)"
    and new_par: "Parent (h' ! length h) = q"
    and q: "\<And>p. q = Some p \<Longrightarrow> p < length h"
    and chi: "\<And>a. a < length h \<Longrightarrow>
        Children (h' ! a) = (if q = Some a then Children (h ! a) @ [length h] else Children (h ! a))"
    and new_chi: "Children (h' ! length h) = []"
  shows "tree_inv h'"
proof -
  let ?n = "length h"
  have up: "\<And>c p. c < ?n \<Longrightarrow> Parent (h ! c) = Some p \<Longrightarrow> p < c"
    using inv by (simp add: tree_inv_def)
  have old: "\<And>a. a < ?n \<Longrightarrow> Children (h ! a) = filter (\<lambda>c. Parent (h ! c) = Some a) [0..<?n]"
    using inv by (simp add: tree_inv_def)
  have flt: "filter (\<lambda>c. Parent (h' ! c) = Some a) [0..<Suc ?n] =
      filter (\<lambda>c. Parent (h ! c) = Some a) [0..<?n] @ (if q = Some a then [?n] else [])" for a
  proof -
    have "filter (\<lambda>c. Parent (h' ! c) = Some a) [0..<?n] =
        filter (\<lambda>c. Parent (h ! c) = Some a) [0..<?n]"
      by (rule filter_cong) (simp_all add: par)
    then show ?thesis by (simp add: new_par)
  qed
  have one: "p < c" if "c < length h'" "Parent (h' ! c) = Some p" for c p
  proof (cases "c < ?n")
    case True
    with that par up show ?thesis by simp
  next
    case False
    with that len have "c = ?n" by simp
    with that new_par q show ?thesis by simp
  qed
  have two: "Children (h' ! a) = filter (\<lambda>c. Parent (h' ! c) = Some a) [0..<length h']"
    if "a < length h'" for a
  proof (cases "a < ?n")
    case True
    then show ?thesis by (simp only: len flt) (simp add: chi old)
  next
    case False
    with that len have a: "a = ?n" by simp
    have "filter (\<lambda>c. Parent (h ! c) = Some ?n) [0..<?n] = []"
      using up by (fastforce simp: filter_empty_conv)
    moreover have "q \<noteq> Some ?n" using q by fastforce
    ultimately show ?thesis by (simp only: a len flt) (simp add: new_chi)
  qed
  show ?thesis unfolding tree_inv_def using one two by blast
qed

lemma tree_inv_same:
  assumes "tree_inv h" "length h' = length h"
    and "\<And>a. a < length h \<Longrightarrow> Parent (h' ! a) = Parent (h ! a)"
    and "\<And>a. a < length h \<Longrightarrow> Children (h' ! a) = Children (h ! a)"
  shows "tree_inv h'"
proof -
  have "filter (\<lambda>c. Parent (h' ! c) = Some a) [0..<length h] =
      filter (\<lambda>c. Parent (h ! c) = Some a) [0..<length h]" for a
    by (rule filter_cong) (simp_all add: assms(3))
  with assms show ?thesis by (simp add: tree_inv_def)
qed

lemma tree_inv_Start:
  assumes "tree_inv (heap st)" "cursor_ok st"
    and "handleToken s sp sd (xml_StartElement name attrs) st = Inr st'"
  shows "tree_inv (heap st')"
proof (rule tree_inv_extend [OF assms(1), where q = "e st"])
  show "length (heap st') = Suc (length (heap st))"
    using assms(3) by (auto simp: handle_Start split: option.splits)
  show "Parent (heap st' ! c) = Parent (heap st ! c)" if "c < length (heap st)" for c
    using handle_frame(2) [OF assms(3) that] .
  show "Parent (heap st' ! length (heap st)) = e st"
    using assms(2,3) by (auto simp: handle_Start cursor_ok_def nth_list_update_total nth_append split: option.splits)
  show "p < length (heap st)" if "e st = Some p" for p
    using assms(2) that by (simp add: cursor_ok_def)
  show "Children (heap st' ! a) =
      (if e st = Some a then Children (heap st ! a) @ [length (heap st)] else Children (heap st ! a))"
    if "a < length (heap st)" for a
    using assms(2,3) that by (auto simp: handle_Start cursor_ok_def nth_list_update_total nth_append split: option.splits)
  show "Children (heap st' ! length (heap st)) = []"
    using assms(2,3) by (auto simp: handle_Start cursor_ok_def nth_list_update_total nth_append split: option.splits)
qed

lemma state_inv_init: "state_inv init"
  by (simp add: state_inv_def init_def tree_inv_def cursor_ok_def new_Document_def)

lemma handle_length:
  assumes "handleToken s sp sd t st = Inr st'"
  shows "length (heap st') = length (heap st) + length (starts [t])"
  using assms by (cases t) (auto simp: handle_simps split: option.splits)

lemma state_inv_handle:
  assumes inv: "state_inv st" and step: "handleToken s sp sd t st = Inr st'"
  shows "state_inv st'"
proof (cases t)
  case (xml_StartElement name attrs)
  from inv have ti: "tree_inv (heap st)" and co: "cursor_ok st"
    and ro: "Root (doc st) = (if heap st = [] then None else Some 0)"
    by (simp_all add: state_inv_def)
  have "tree_inv (heap st')"
    using tree_inv_Start [OF ti co] step xml_StartElement by simp
  moreover have "cursor_ok st'"
    using step xml_StartElement by (auto simp: handle_Start cursor_ok_def split: option.splits)
  moreover have "Root (doc st') = (if heap st' = [] then None else Some 0)"
    using step xml_StartElement ro by (auto simp: handle_Start split: option.splits)
  ultimately show ?thesis by (simp add: state_inv_def)
next
  case (xml_EndElement name)
  with step obtain a where a: "e st = Some a" and st': "st' = st\<lparr>e := Parent (heap st ! a)\<rparr>"
    by (auto simp: handle_End split: option.splits)
  from inv a have "a < length (heap st)" by (simp add: state_inv_def cursor_ok_def)
  with inv have "\<And>p. Parent (heap st ! a) = Some p \<Longrightarrow> p < length (heap st)"
    by (fastforce simp: state_inv_def tree_inv_def)
  with inv st' show ?thesis by (simp add: state_inv_def cursor_ok_def)
next
  case (xml_CharData c)
  show ?thesis
  proof (cases "e st")
    case None
    with step xml_CharData inv show ?thesis by (simp add: handle_CharData)
  next
    case (Some a)
    with step xml_CharData have st': "st' = st\<lparr>heap := (heap st)
        [a := (heap st ! a)\<lparr>Text := if preserveWhitespace s then c else TrimSpace c\<rparr>]\<rparr>"
      by (simp add: handle_CharData)
    from inv have "tree_inv (heap st)" by (simp add: state_inv_def)
    then have "tree_inv (heap st')"
      by (rule tree_inv_same) (simp_all add: st' nth_list_update_total)
    with inv st' show ?thesis by (simp add: state_inv_def cursor_ok_def)
  qed
next
  case (xml_Comment c)
  with step inv show ?thesis by (simp add: handle_Comment)
next
  case (xml_ProcInst target inst)
  with step inv show ?thesis by (auto simp: handle_ProcInst state_inv_def cursor_ok_def)
next
  case (xml_Directive dir)
  with step inv show ?thesis by (auto simp: handle_Directive state_inv_def cursor_ok_def)
qed

lemma state_inv_run:
  "state_inv st \<Longrightarrow> run s sp sd ts st = Inr st' \<Longrightarrow> state_inv st'"
  by (induction ts arbitrary: st) (auto split: sum.splits dest: state_inv_handle)

lemma run_frame:
  assumes "run s sp sd ts st = Inr st'"
  shows "length (heap st) \<le> length (heap st') \<and>
    (\<forall>a<length (heap st).
      Parent (heap st' ! a) = Parent (heap st ! a) \<and>
      Name (heap st' ! a) = Name (heap st ! a) \<and>
      Attributes (heap st' ! a) = Attributes (heap st ! a) \<and>
      Document (heap st' ! a) = Document (heap st ! a))"
  using assms
proof (induction ts arbitrary: st)
  case Nil
  then show ?case by simp
next
  case (Cons t ts)
  then obtain st1 where 1: "handleToken s sp sd t st = Inr st1" and 2: "run s sp sd ts st1 = Inr st'"
    by (auto split: sum.splits)
  from handle_frame [OF 1] Cons.IH [OF 2] show ?case
    by (metis (no_types, lifting) le_trans less_le_trans)
qed

lemma handle_new_node:
  assumes "handleToken s sp sd (xml_StartElement name attrs) st = Inr st'"
  shows "Name (heap st' ! length (heap st)) = Local name"
    and "Attributes (heap st' ! length (heap st)) = map convAttr attrs"
    and "Parent (heap st' ! length (heap st)) = e st"
    and "Document (heap st' ! length (heap st)) = DocRef"
  using assms
  by (auto simp: handle_Start nth_list_update_total nth_append split: option.splits)

lemma run_starts:
  assumes "run s sp sd ts st = Inr st'"
  shows "length (heap st') = length (heap st) + length (starts ts) \<and>
    (\<forall>i<length (starts ts).
      Name (heap st' ! (length (heap st) + i)) = Local (fst (starts ts ! i)) \<and>
      Attributes (heap st' ! (length (heap st) + i)) = map convAttr (snd (starts ts ! i)))"
  using assms
proof (induction ts arbitrary: st)
  case Nil
  then show ?case by simp
next
  case (Cons t ts)
  then obtain st1 where 1: "handleToken s sp sd t st = Inr st1" and 2: "run s sp sd ts st1 = Inr st'"
    by (auto split: sum.splits)
  note len1 = handle_length [OF 1]
  note ih = Cons.IH [OF 2]
  show ?case
  proof (cases t)
    case (xml_StartElement name attrs)
    have l1: "length (heap st1) = Suc (length (heap st))"
      using len1 xml_StartElement by simp
    have new: "Name (heap st' ! length (heap st)) = Local name \<and>
        Attributes (heap st' ! length (heap st)) = map convAttr attrs"
      using run_frame [OF 2] handle_new_node(1,2) [OF 1 [unfolded xml_StartElement]] l1
      by simp
    have "Name (heap st' ! (length (heap st) + i)) = Local (fst (starts (t # ts) ! i)) \<and>
        Attributes (heap st' ! (length (heap st) + i)) = map convAttr (snd (starts (t # ts) ! i))"
      if "i < length (starts (t # ts))" for i
    proof (cases i)
      case 0
      with new xml_StartElement show ?thesis by simp
    next
      case (Suc j)
      with that xml_StartElement have "j < length (starts ts)" by simp
      with ih l1 Suc xml_StartElement show ?thesis by simp
    qed
    moreover have "length (heap st') = length (heap st) + length (starts (t # ts))"
      using ih l1 xml_StartElement by simp
    ultimately show ?thesis by blast
  qed (use ih len1 in simp_all)
qed

lemma run_doc:
  assumes "run s sp sd ts st = Inr st'"
  shows "Directives (doc st') = Directives (doc st) @ map sd (directives ts) \<and>
    ProcInst (doc st') =
      (if procinsts ts = [] then ProcInst (doc st)
       else sp (fst (last (procinsts ts))) (snd (last (procinsts ts))))"
  using assms
proof (induction ts arbitrary: st)
  case Nil
  then show ?case by simp
next
  case (Cons t ts)
  then obtain st1 where 1: "handleToken s sp sd t st = Inr st1" and 2: "run s sp sd ts st1 = Inr st'"
    by (auto split: sum.splits)
  from 1 Cons.IH [OF 2] show ?case
    by (cases t) (auto simp: handle_simps split: option.splits)
qed

lemma starts_set:
  "(name, attrs) \<in> set (starts ts) \<longleftrightarrow> xml_StartElement name attrs \<in> set ts"
  by (induction ts rule: starts.induct) auto

lemma chain_frame:
  assumes "length h \<le> length h'" "\<And>a. a < length h \<Longrightarrow> Parent (h' ! a) = Parent (h ! a)"
  shows "chain h c n \<Longrightarrow> chain h' c n"
  using assms by (induction h c n rule: chain.induct) auto

lemma chain_handle:
  assumes "chain (heap st) (e st) d" "handleToken s sp sd t st = Inr st'"
  shows "chain (heap st') (e st) d"
  by (rule chain_frame [OF handle_frame(1) [OF assms(2)] handle_frame(2) [OF assms(2)] assms(1)])

lemma chain_run:
  "chain (heap st) (e st) d \<Longrightarrow>
     (run s sp sd ts st \<noteq> Inl NilPointerDereference) = balanced_from d ts"
proof (induction ts arbitrary: st d)
  case Nil
  then show ?case by simp
next
  case (Cons t ts)
  show ?case
  proof (cases t)
    case (xml_StartElement name attrs)
    obtain st1 where 1: "handleToken s sp sd t st = Inr st1"
      using xml_StartElement by (simp add: handle_Start)
    have "e st1 = Some (length (heap st))" "length (heap st) < length (heap st1)"
      using 1 handle_length [OF 1] xml_StartElement by (auto simp: handle_Start)
    moreover have "Parent (heap st1 ! length (heap st)) = e st"
      using handle_new_node(3) 1 xml_StartElement by simp
    ultimately have "chain (heap st1) (e st1) (Suc d)"
      using chain_handle [OF Cons.prems 1] by simp
    from Cons.IH [OF this] 1 xml_StartElement show ?thesis by simp
  next
    case (xml_EndElement name)
    show ?thesis
    proof (cases d)
      case 0
      with Cons.prems have "e st = None" by (cases "e st") simp_all
      with 0 xml_EndElement show ?thesis by (simp add: handle_End)
    next
      case (Suc d')
      with Cons.prems obtain a where a: "e st = Some a" "a < length (heap st)"
        "chain (heap st) (Parent (heap st ! a)) d'"
        by (cases "e st") simp_all
      let ?st1 = "st\<lparr>e := Parent (heap st ! a)\<rparr>"
      have "chain (heap ?st1) (e ?st1) d'" using a by simp
      from Cons.IH [OF this] a Suc xml_EndElement show ?thesis by (simp add: handle_End)
    qed
  next
    case (xml_CharData c)
    obtain st1 where 1: "handleToken s sp sd t st = Inr st1"
      using xml_CharData by (cases "e st") (simp_all add: handle_CharData)
    then have "e st1 = e st" using xml_CharData by (cases "e st") (auto simp: handle_CharData)
    with chain_handle [OF Cons.prems 1] have "chain (heap st1) (e st1) d" by simp
    from Cons.IH [OF this] 1 xml_CharData show ?thesis by simp
  next
    case (xml_Comment c)
    with Cons show ?thesis by (simp add: handle_Comment)
  next
    case (xml_ProcInst target inst)
    with Cons.IH [of "st\<lparr>doc := (doc st)\<lparr>ProcInst := sp target inst\<rparr>\<rparr>" d] Cons.prems
    show ?thesis by (simp add: handle_ProcInst)
  next
    case (xml_Directive dir)
    with Cons.IH [of "st\<lparr>doc := (doc st)\<lparr>Directives := Directives (doc st) @ [sd dir]\<rparr>\<rparr>" d] Cons.prems
    show ?thesis by (simp add: handle_Directive)
  qed
qed

lemma run_balanced: "(run s sp sd ts init \<noteq> Inl NilPointerDereference) = balanced ts"
  unfolding balanced_def by (rule chain_run) (simp add: init_def)

lemma inTree_bound:
  assumes "tree_inv h" "r < length h" "inTree h r c"
  shows "c < length h"
  using assms(3,1,2)
proof (induction rule: inTree.induct)
  case root
  then show ?case by simp
next
  case (child p c)
  then have "Children (h ! p) = filter (\<lambda>c. Parent (h ! c) = Some p) [0..<length h]"
    by (simp add: tree_inv_def)
  with child.hyps(2) show ?case by simp
qed

lemma tree_inv_child:
  assumes "tree_inv h" "q < length h"
  shows "c \<in> set (Children (h ! q)) \<longleftrightarrow> c < length h \<and> Parent (h ! c) = Some q"
  using assms by (auto simp: tree_inv_def)

lemma inTree_parent:
  assumes "tree_inv h" "r < length h" "inTree h r c" "c \<noteq> r"
  shows "\<exists>q. inTree h r q \<and> q < length h \<and> Parent (h ! c) = Some q"
  using assms(3,4)
proof (cases rule: inTree.cases)
  case root
  with assms(4) show ?thesis by simp
next
  case (child p)
  with assms inTree_bound [OF assms(1,2) child(1)] show ?thesis
    by (auto simp: tree_inv_child)
qed

lemma Parse_success:
  "Parse s sp sd p = Inr (Some (d, h), None) \<longleftrightarrow>
     pending p \<noteq> [] \<and> final p = io_EOF \<and>
     (\<exists>st. run s sp sd (pending p) init = Inr st \<and> d = doc st \<and> h = heap st)"
  by (cases "pending p"; cases "run s sp sd (pending p) init") (auto simp: Parse_run)

lemma Parse_nodes:
  assumes "Parse s sp sd p = Inr (Some (d, h), None)"
  shows "length h = length (starts (pending p))"
    and "j < length h \<Longrightarrow> Name (h ! j) = Local (fst (starts (pending p) ! j))"
    and "j < length h \<Longrightarrow> Attributes (h ! j) = map convAttr (snd (starts (pending p) ! j))"
proof -
  from assms obtain st where "run s sp sd (pending p) init = Inr st" "h = heap st"
    by (auto simp: Parse_success)
  from run_starts [OF this(1)] this(2)
  show "length h = length (starts (pending p))"
    and "j < length h \<Longrightarrow> Name (h ! j) = Local (fst (starts (pending p) ! j))"
    and "j < length h \<Longrightarrow> Attributes (h ! j) = map convAttr (snd (starts (pending p) ! j))"
    by (simp_all add: init_def)
qed

lemma Parse_state_inv:
  assumes "Parse s sp sd p = Inr (Some (d, h), None)"
  shows "tree_inv h" and "Root d = (if h = [] then None else Some 0)"
proof -
  from assms obtain st where "run s sp sd (pending p) init = Inr st" "h = heap st" "d = doc st"
    by (auto simp: Parse_success)
  with state_inv_run [OF state_inv_init this(1)]
  show "tree_inv h" and "Root d = (if h = [] then None else Some 0)"
    by (simp_all add: state_inv_def)
qed


section \<open>Premature end of input\<close>

text \<open>
  C1, as amended. When the token source reports end-of-input on the very first pull (no
  token at all, an empty input), \<open>Parse\<close> returns no Document and returns that error:
  the first pull's \<^verbatim>\<open>err != nil\<close> check does not set end-of-input apart. A Document
  with root absent and no error is what \<open>Parse\<close> returns when the source delivers at
  least one token, no start-element among them and no end-element without an open
  element, and then reports end-of-input.
\<close>

theorem C1_first_pull:
  "(pending p = [] \<longrightarrow> Parse s sp sd p = Inr (None, Some (final p))) \<and>
   (pending p \<noteq> [] \<and> final p = io_EOF \<and> starts (pending p) = [] \<and> balanced (pending p) \<longrightarrow>
      (\<exists>d. Parse s sp sd p = Inr (Some (d, []), None) \<and> Root d = None))"
proof (intro conjI impI)
  assume "pending p = []"
  then show "Parse s sp sd p = Inr (None, Some (final p))" by (simp add: Parse_run)
next
  assume a: "pending p \<noteq> [] \<and> final p = io_EOF \<and> starts (pending p) = [] \<and> balanced (pending p)"
  then have "run s sp sd (pending p) init \<noteq> Inl NilPointerDereference"
    by (simp add: run_balanced)
  then obtain st where st: "run s sp sd (pending p) init = Inr st"
    by (cases "run s sp sd (pending p) init") (auto intro: panic.exhaust)
  with a have P: "Parse s sp sd p = Inr (Some (doc st, heap st), None)"
    by (simp add: Parse_success)
  from Parse_nodes(1) [OF P] a have "heap st = []" by simp
  with Parse_state_inv(2) [OF P] P show "\<exists>d. Parse s sp sd p = Inr (Some (d, []), None) \<and> Root d = None"
    by auto
qed

theorem C1_first_pull_witness:
  "Parse NewDOMParser sample_sp sample_sd \<lparr>pending = [], final = io_EOF\<rparr> = Inr (None, Some io_EOF) \<and>
   (\<exists>d. Parse NewDOMParser sample_sp sample_sd
           \<lparr>pending = [xml_CharData [CHR 0x20, CHR 0x0A]], final = io_EOF\<rparr> = Inr (Some (d, []), None) \<and>
        Root d = None)"
  using C1_first_pull [of "\<lparr>pending = [], final = io_EOF\<rparr>" NewDOMParser sample_sp sample_sd]
    C1_first_pull [of "\<lparr>pending = [xml_CharData [CHR 0x20, CHR 0x0A]], final = io_EOF\<rparr>"
      NewDOMParser sample_sp sample_sd]
  by (simp add: balanced_def)

text \<open>
  C1 as stated fails: on a source that reports end-of-input at once, \<open>Parse\<close>
  returns the error \<^verbatim>\<open>io.EOF\<close> and no Document.
\<close>

theorem C1_empty_input_counterexample:
  "Parse NewDOMParser sample_sp sample_sd \<lparr>pending = [], final = io_EOF\<rparr> = Inr (None, Some io_EOF)"
  by (simp add: Parse_run)

section \<open>Attribute names\<close>

lemma attrName_eval:
  "attrName a =
     (if Space (Attr_Name a) = [] then Local (Attr_Name a)
      else if Space (Attr_Name a) = xmlnsUrl then ''xmlns:'' @ Local (Attr_Name a)
      else if Space (Attr_Name a) = xmlUrl then ''xml:'' @ Local (Attr_Name a)
      else if Space (Attr_Name a) = xlinkUrl then ''xlink:'' @ Local (Attr_Name a)
      else if Space (Attr_Name a) = xsiUrl then ''xsi:'' @ Local (Attr_Name a)
      else Space (Attr_Name a) @ '':'' @ Local (Attr_Name a))"
  by (simp add: attrName_def Sprintf_colon_def xmlnsPrefix_def xmlPrefix_def xlinkPrefix_def
      xsiPrefix_def Let_def)

lemmas url_defs = xmlnsUrl_def xmlUrl_def xlinkUrl_def xsiUrl_def

lemmas eval_simps =
  Parse_run handle_simps init_def new_Document_def convAttr_def attrName_eval url_defs
  NewDOMParser_def PreserveWhitespace_def sample_sp_def sample_sd_def

lemma Parse_example_ns:
  "Parse NewDOMParser sample_sp sample_sd \<lparr>pending = example_ns, final = io_EOF\<rparr> =
     Inr (Some (\<lparr>Root = Some 0, ProcInst = [], Directives = []\<rparr>, example_ns_heap), None)"
  by (simp add: example_ns_def example_ns_heap_def eval_simps)

lemma Parse_example_reserved:
  "Parse NewDOMParser sample_sp sample_sd \<lparr>pending = example_reserved, final = io_EOF\<rparr> =
     Inr (Some (\<lparr>Root = Some 0, ProcInst = [], Directives = []\<rparr>, example_reserved_heap), None)"
  by (simp add: example_reserved_def example_reserved_heap_def eval_simps)

text \<open>
  C2, as amended. For every attribute of a start-element that carries a non-empty
  namespace other than the four reserved URIs, the name stored in the tree returned by a
  successful parse is \<open>space:localName\<close>, where \<open>space\<close> is the attribute's namespace
  string exactly as the token carries it (the namespace URI itself), used verbatim. The
  builder has no access to the prefix declared for the URI.
\<close>

theorem C2_namespace_verbatim:
  assumes "Parse s sp sd p = Inr (Some (d, h), None)"
    and "j < length (starts (pending p))"
    and "i < length (snd (starts (pending p) ! j))"
    and "Space (Attr_Name (snd (starts (pending p) ! j) ! i)) \<noteq> []"
    and "\<not> reserved (Space (Attr_Name (snd (starts (pending p) ! j) ! i)))"
  shows "j < length h \<and> i < length (Attributes (h ! j)) \<and>
    Attribute_Name (Attributes (h ! j) ! i) =
      Space (Attr_Name (snd (starts (pending p) ! j) ! i)) @ '':'' @
      Local (Attr_Name (snd (starts (pending p) ! j) ! i))"
proof -
  from Parse_nodes(1) [OF assms(1)] assms(2) have j: "j < length h" by simp
  from Parse_nodes(3) [OF assms(1) j]
  have "Attributes (h ! j) = map convAttr (snd (starts (pending p) ! j))" .
  with assms(3,4,5) j show ?thesis
    by (simp add: convAttr_def attrName_eval reserved_def)
qed

theorem C2_namespace_verbatim_witness:
  "Parse NewDOMParser sample_sp sample_sd \<lparr>pending = example_ns, final = io_EOF\<rparr> =
     Inr (Some (\<lparr>Root = Some 0, ProcInst = [], Directives = []\<rparr>, example_ns_heap), None) \<and>
   Space (Attr_Name (snd (starts example_ns ! 0) ! 1)) = ''http://example.com/foo'' \<and>
   \<not> reserved ''http://example.com/foo'' \<and>
   Attribute_Name (Attributes (example_ns_heap ! 0) ! 1) = ''http://example.com/foo:bar''"
  using C2_namespace_verbatim [OF Parse_example_ns, of 0 1]
  by (simp add: Parse_example_ns) (simp add: example_ns_def reserved_def url_defs)

text \<open>
  C2 as stated fails: the start-element of \<open>example_ns\<close> declares the prefix \<open>foo\<close>
  for \<open>http://example.com/foo\<close>, and its attribute \<open>bar\<close> in that namespace is stored
  as \<open>http://example.com/foo:bar\<close>, not as \<open>foo:bar\<close>.
\<close>

theorem C2_declared_prefix_counterexample:
  "spec_declaredPrefix (snd (starts example_ns ! 0)) ''http://example.com/foo'' = Some ''foo'' \<and>
   Parse NewDOMParser sample_sp sample_sd \<lparr>pending = example_ns, final = io_EOF\<rparr> =
     Inr (Some (\<lparr>Root = Some 0, ProcInst = [], Directives = []\<rparr>, example_ns_heap), None) \<and>
   Attribute_Name (Attributes (example_ns_heap ! 0) ! 1) = ''http://example.com/foo:bar'' \<and>
   Attribute_Name (Attributes (example_ns_heap ! 0) ! 1) \<noteq> ''foo:bar''"
  by (simp add: Parse_example_ns)
     (simp add: example_ns_def example_ns_heap_def spec_declaredPrefix_def)

text \<open>
  C3. In the tree returned by a successful parse, an attribute whose namespace is one of
  the four reserved URIs is stored under the fixed prefix of that URI (\<open>xmlns\<close>,
  \<open>xml\<close>, \<open>xlink\<close>, \<open>xsi\<close>) and its local name; the token does not carry the
  prefix written in the source text, so the stored name cannot depend on it. An
  attribute without a namespace is stored under its local name alone. The value is
  stored as it is.
\<close>

theorem C3_reserved_namespaces:
  assumes "Parse s sp sd p = Inr (Some (d, h), None)"
    and "j < length (starts (pending p))"
    and "i < length (snd (starts (pending p) ! j))"
  shows "j < length h \<and> i < length (Attributes (h ! j)) \<and>
    (let a = snd (starts (pending p) ! j) ! i; stored = Attributes (h ! j) ! i in
       (Space (Attr_Name a) = ''http://www.w3.org/2000/xmlns'' \<longrightarrow>
          Attribute_Name stored = ''xmlns:'' @ Local (Attr_Name a)) \<and>
       (Space (Attr_Name a) = ''http://www.w3.org/XML/1998/namespace'' \<longrightarrow>
          Attribute_Name stored = ''xml:'' @ Local (Attr_Name a)) \<and>
       (Space (Attr_Name a) = ''http://www.w3.org/1999/xlink'' \<longrightarrow>
          Attribute_Name stored = ''xlink:'' @ Local (Attr_Name a)) \<and>
       (Space (Attr_Name a) = ''http://www.w3.org/2001/XMLSchema-instance'' \<longrightarrow>
          Attribute_Name stored = ''xsi:'' @ Local (Attr_Name a)) \<and>
       (Space (Attr_Name a) = [] \<longrightarrow> Attribute_Name stored = Local (Attr_Name a)) \<and>
       Attribute_Value stored = Attr_Value a)"
proof -
  from Parse_nodes(1) [OF assms(1)] assms(2) have j: "j < length h" by simp
  from Parse_nodes(3) [OF assms(1) j]
  have "Attributes (h ! j) = map convAttr (snd (starts (pending p) ! j))" .
  with assms(3) j show ?thesis
    by (simp add: convAttr_def attrName_eval url_defs Let_def)
qed

theorem C3_reserved_namespaces_witness:
  "Parse NewDOMParser sample_sp sample_sd \<lparr>pending = example_reserved, final = io_EOF\<rparr> =
     Inr (Some (\<lparr>Root = Some 0, ProcInst = [], Directives = []\<rparr>, example_reserved_heap), None) \<and>
   map (\<lambda>a. Space (Attr_Name a)) (snd (starts example_reserved ! 0)) =
     [''xmlns'', ''http://www.w3.org/1999/xlink'', ''http://www.w3.org/XML/1998/namespace'',
      ''http://www.w3.org/2001/XMLSchema-instance'', ''http://www.w3.org/2000/xmlns'', []] \<and>
   Attribute_Name (Attributes (example_reserved_heap ! 0) ! 1) = ''xlink:href'' \<and>
   Attribute_Name (Attributes (example_reserved_heap ! 0) ! 2) = ''xml:lang'' \<and>
   Attribute_Name (Attributes (example_reserved_heap ! 0) ! 3) = ''xsi:type'' \<and>
   Attribute_Name (Attributes (example_reserved_heap ! 0) ! 4) = ''xmlns:x'' \<and>
   Attribute_Name (Attributes (example_reserved_heap ! 0) ! 5) = ''id'' \<and>
   Attribute_Value (Attributes (example_reserved_heap ! 0) ! 5) = '' 7 ''"
  using C3_reserved_namespaces [OF Parse_example_reserved, of 0 1]
    C3_reserved_namespaces [OF Parse_example_reserved, of 0 2]
    C3_reserved_namespaces [OF Parse_example_reserved, of 0 3]
    C3_reserved_namespaces [OF Parse_example_reserved, of 0 4]
    C3_reserved_namespaces [OF Parse_example_reserved, of 0 5]
  by (simp add: Parse_example_reserved) (simp add: example_reserved_def Let_def)

section \<open>Character data\<close>

declare trimPrefixes.simps [simp del]

lemma trimPrefixes_split: "\<exists>xs. s = concat xs @ trimPrefixes ws s \<and> set xs \<subseteq> set ws"
proof (induction ws s rule: trimPrefixes.induct)
  case (1 ws s)
  show ?case
  proof (cases "find (\<lambda>w. w \<noteq> [] \<and> take (length w) s = w) ws")
    case None
    then have "trimPrefixes ws s = s" by (simp add: trimPrefixes.simps [of ws s])
    then have "s = concat [] @ trimPrefixes ws s \<and> set [] \<subseteq> set ws" by simp
    then show ?thesis by blast
  next
    case (Some w)
    then have w: "w \<in> set ws" "take (length w) s = w"
      by (auto simp: find_Some_iff)
    from "1.IH" [OF Some] obtain xs where
      xs: "drop (length w) s = concat xs @ trimPrefixes ws (drop (length w) s)" "set xs \<subseteq> set ws"
      by blast
    have "trimPrefixes ws s = trimPrefixes ws (drop (length w) s)"
      using Some by (simp add: trimPrefixes.simps [of ws s])
    moreover have "s = w @ drop (length w) s"
      using w(2) append_take_drop_id [of "length w" s] by simp
    ultimately have "s = concat (w # xs) @ trimPrefixes ws s \<and> set (w # xs) \<subseteq> set ws"
      using xs w(1) by simp
    then show ?thesis by blast
  qed
qed

lemma trimPrefixes_done:
  "w \<in> set ws \<Longrightarrow> w \<noteq> [] \<Longrightarrow> \<not> prefix w (trimPrefixes ws s)"
proof (induction ws s rule: trimPrefixes.induct)
  case (1 ws s)
  show ?case
  proof (cases "find (\<lambda>w. w \<noteq> [] \<and> take (length w) s = w) ws")
    case None
    then have "trimPrefixes ws s = s" by (simp add: trimPrefixes.simps [of ws s])
    moreover from None "1.prems" have "take (length w) s \<noteq> w"
      by (auto simp: find_None_iff)
    ultimately show ?thesis by (auto simp: prefix_def)
  next
    case (Some v)
    then have "trimPrefixes ws s = trimPrefixes ws (drop (length v) s)"
      by (simp add: trimPrefixes.simps [of ws s])
    with "1.IH" [OF Some "1.prems"] show ?thesis by simp
  qed
qed

lemma unicodeSpace_nonempty: "w \<in> set unicodeSpace \<Longrightarrow> w \<noteq> []"
  by (auto simp: unicodeSpace_def)

lemma TrimSpace_spec:
  "\<exists>xs ys. c = concat xs @ TrimSpace c @ concat ys \<and>
     set xs \<subseteq> set unicodeSpace \<and> set ys \<subseteq> set unicodeSpace \<and>
     (\<forall>w\<in>set unicodeSpace. \<not> prefix w (TrimSpace c) \<and> \<not> suffix w (TrimSpace c))"
proof -
  let ?m = "trimPrefixes unicodeSpace c"
  let ?r = "trimPrefixes (map rev unicodeSpace) (rev ?m)"
  obtain xs where xs: "c = concat xs @ ?m" "set xs \<subseteq> set unicodeSpace"
    using trimPrefixes_split by blast
  obtain zs where zs: "rev ?m = concat zs @ ?r" "set zs \<subseteq> set (map rev unicodeSpace)"
    using trimPrefixes_split by blast
  have T: "TrimSpace c = rev ?r" by (simp add: TrimSpace_def)
  from zs(1) have "?m = rev ?r @ rev (concat zs)"
    by (metis rev_append rev_rev_ident)
  then have m: "?m = TrimSpace c @ concat (map rev (rev zs))"
    by (simp add: T rev_concat)
  have ys: "set (map rev (rev zs)) \<subseteq> set unicodeSpace"
    using zs(2) by auto
  have no_pre: "\<not> prefix w (TrimSpace c)" if "w \<in> set unicodeSpace" for w
  proof
    assume "prefix w (TrimSpace c)"
    then have "prefix w ?m" using m by (metis prefix_prefix)
    with trimPrefixes_done [OF that unicodeSpace_nonempty [OF that]] show False by simp
  qed
  have no_suf: "\<not> suffix w (TrimSpace c)" if "w \<in> set unicodeSpace" for w
  proof
    assume "suffix w (TrimSpace c)"
    then have "prefix (rev w) ?r" by (simp add: T suffix_to_prefix)
    moreover have "rev w \<in> set (map rev unicodeSpace)" "rev w \<noteq> []"
      using that unicodeSpace_nonempty [OF that] by auto
    ultimately show False using trimPrefixes_done by blast
  qed
  from xs m ys no_pre no_suf show ?thesis
    by metis
qed

lemma TrimSpace_bar: "TrimSpace '' bar '' = ''bar''"
  by (simp add: TrimSpace_def trimPrefixes.simps unicodeSpace_def)

lemma run_init_heap:
  assumes "run s sp sd ts init = Inr st"
  shows "cursor_ok st"
  using state_inv_run [OF state_inv_init assms] by (simp add: state_inv_def)

text \<open>
  C4. In every state \<open>st\<close> the loop reaches, a character-data token with content \<open>c\<close>
  does this. With no cursor, the state, and so the Document, is left as it is. With a
  cursor \<open>a\<close>, which then points at a node of the store, the \<open>Text\<close> of that node
  becomes \<open>c\<close> itself when \<open>preserveWhitespace\<close> is set and \<open>TrimSpace c\<close> when it is
  not, whatever the text was before; nothing else of the node, no other node, and
  neither the Document nor the cursor changes. \<open>TrimSpace c\<close> is \<open>c\<close> without a run of
  white space characters at its front and one at its end, and it neither starts nor
  ends with a white space character.
\<close>

theorem C4_character_data:
  assumes "run s sp sd ts init = Inr st"
  shows "(e st = None \<longrightarrow> handleToken s sp sd (xml_CharData c) st = Inr st) \<and>
    (\<forall>a. e st = Some a \<longrightarrow>
       a < length (heap st) \<and>
       (\<exists>st'. handleToken s sp sd (xml_CharData c) st = Inr st' \<and>
          Text (heap st' ! a) = (if preserveWhitespace s then c else TrimSpace c) \<and>
          heap st' = (heap st)[a := (heap st ! a)
            \<lparr>Text := if preserveWhitespace s then c else TrimSpace c\<rparr>] \<and>
          doc st' = doc st \<and> e st' = e st)) \<and>
    (\<exists>xs ys. c = concat xs @ TrimSpace c @ concat ys \<and>
       set xs \<subseteq> set unicodeSpace \<and> set ys \<subseteq> set unicodeSpace \<and>
       (\<forall>w\<in>set unicodeSpace. \<not> prefix w (TrimSpace c) \<and> \<not> suffix w (TrimSpace c)))"
proof (intro conjI allI impI)
  assume "e st = None"
  then show "handleToken s sp sd (xml_CharData c) st = Inr st"
    by (simp add: handle_CharData)
next
  fix a assume a: "e st = Some a"
  with run_init_heap [OF assms] show len: "a < length (heap st)"
    by (simp add: cursor_ok_def)
  let ?st' = "st\<lparr>heap := (heap st)[a := (heap st ! a)
      \<lparr>Text := if preserveWhitespace s then c else TrimSpace c\<rparr>]\<rparr>"
  have "handleToken s sp sd (xml_CharData c) st = Inr ?st'"
    using a by (simp add: handle_CharData)
  moreover have "Text (heap ?st' ! a) = (if preserveWhitespace s then c else TrimSpace c)"
    using len by simp
  ultimately show "\<exists>st'. handleToken s sp sd (xml_CharData c) st = Inr st' \<and>
      Text (heap st' ! a) = (if preserveWhitespace s then c else TrimSpace c) \<and>
      heap st' = (heap st)[a := (heap st ! a)
        \<lparr>Text := if preserveWhitespace s then c else TrimSpace c\<rparr>] \<and>
      doc st' = doc st \<and> e st' = e st"
    by auto
next
  show "\<exists>xs ys. c = concat xs @ TrimSpace c @ concat ys \<and>
      set xs \<subseteq> set unicodeSpace \<and> set ys \<subseteq> set unicodeSpace \<and>
      (\<forall>w\<in>set unicodeSpace. \<not> prefix w (TrimSpace c) \<and> \<not> suffix w (TrimSpace c))"
    by (rule TrimSpace_spec)
qed

lemma run_example_open:
  "run s sample_sp sample_sd example_open init = Inr (example_open_state ''old'')"
  by (simp add: example_open_def example_open_state_def eval_simps TrimSpace_def
      trimPrefixes.simps unicodeSpace_def)

lemma Parse_example_ws:
  "Parse NewDOMParser sample_sp sample_sd \<lparr>pending = example_ws, final = io_EOF\<rparr> =
     Inr (Some (\<lparr>Root = Some 0, ProcInst = ''<?xml version=1.0?>'', Directives = []\<rparr>,
       [\<lparr>Document = DocRef, Parent = None, Name = ''foo'', Attributes = [],
          Text = ''bar'', Children = []\<rparr>]), None)"
  by (simp add: example_ws_def eval_simps TrimSpace_bar)

lemma Parse_example_ws_preserve:
  "Parse (PreserveWhitespace NewDOMParser True) sample_sp sample_sd
       \<lparr>pending = example_ws, final = io_EOF\<rparr> =
     Inr (Some (\<lparr>Root = Some 0, ProcInst = ''<?xml version=1.0?>'', Directives = []\<rparr>,
       [\<lparr>Document = DocRef, Parent = None, Name = ''foo'', Attributes = [],
          Text = '' bar '', Children = []\<rparr>]), None)"
  by (simp add: example_ws_def eval_simps)

theorem C4_character_data_witness:
  "run NewDOMParser sample_sp sample_sd example_open init = Inr (example_open_state ''old'') \<and>
   e (example_open_state ''old'') = Some 0 \<and>
   handleToken NewDOMParser sample_sp sample_sd (xml_CharData '' bar '') (example_open_state ''old'') =
     Inr (example_open_state ''bar'') \<and>
   handleToken (PreserveWhitespace NewDOMParser True) sample_sp sample_sd (xml_CharData '' bar '')
       (example_open_state ''old'') =
     Inr (example_open_state '' bar '') \<and>
   e init = None \<and>
   handleToken NewDOMParser sample_sp sample_sd (xml_CharData '' bar '') init = Inr init \<and>
   Parse NewDOMParser sample_sp sample_sd \<lparr>pending = example_ws, final = io_EOF\<rparr> =
     Inr (Some (\<lparr>Root = Some 0, ProcInst = ''<?xml version=1.0?>'', Directives = []\<rparr>,
       [\<lparr>Document = DocRef, Parent = None, Name = ''foo'', Attributes = [],
          Text = ''bar'', Children = []\<rparr>]), None) \<and>
   Parse (PreserveWhitespace NewDOMParser True) sample_sp sample_sd
       \<lparr>pending = example_ws, final = io_EOF\<rparr> =
     Inr (Some (\<lparr>Root = Some 0, ProcInst = ''<?xml version=1.0?>'', Directives = []\<rparr>,
       [\<lparr>Document = DocRef, Parent = None, Name = ''foo'', Attributes = [],
          Text = '' bar '', Children = []\<rparr>]), None)"
  using C4_character_data [OF run_example_open, of NewDOMParser "'' bar ''"]
    C4_character_data [OF run_example_open, of "PreserveWhitespace NewDOMParser True" "'' bar ''"]
    C4_character_data [of NewDOMParser sample_sp sample_sd "[]" init "'' bar ''"]
  by (simp add: run_example_open Parse_example_ws Parse_example_ws_preserve)
     (auto simp: example_open_state_def TrimSpace_bar NewDOMParser_def PreserveWhitespace_def
        init_def)

section \<open>The root\<close>

text \<open>
  C5. On every successful parse the Document's \<open>Root\<close> is non-nil exactly when the
  token sequence contains a start-element. When it does, the root is the node of the
  first start-element, the outermost tag of a well-formed document with one root: its
  \<open>Name\<close> is the local part of that tag's name, whatever its namespace, and its
  \<open>Parent\<close> is nil.
\<close>

theorem C5_root:
  assumes "Parse s sp sd p = Inr (Some (d, h), None)"
  shows "(Root d \<noteq> None \<longleftrightarrow> (\<exists>name attrs. xml_StartElement name attrs \<in> set (pending p))) \<and>
    (\<forall>name attrs rest. starts (pending p) = (name, attrs) # rest \<longrightarrow>
       (\<exists>r. Root d = Some r \<and> r < length h \<and> Name (h ! r) = Local name \<and> Parent (h ! r) = None))"
proof (intro conjI allI impI)
  have "h = [] \<longleftrightarrow> starts (pending p) = []"
    using Parse_nodes(1) [OF assms] by auto
  moreover have "starts (pending p) \<noteq> [] \<longleftrightarrow>
      (\<exists>name attrs. xml_StartElement name attrs \<in> set (pending p))"
  proof
    assume "starts (pending p) \<noteq> []"
    then obtain name attrs where "(name, attrs) \<in> set (starts (pending p))"
      by (cases "starts (pending p)") auto
    then show "\<exists>name attrs. xml_StartElement name attrs \<in> set (pending p)"
      using starts_set by blast
  next
    assume "\<exists>name attrs. xml_StartElement name attrs \<in> set (pending p)"
    then show "starts (pending p) \<noteq> []" by (auto simp: starts_set [symmetric])
  qed
  ultimately show "Root d \<noteq> None \<longleftrightarrow> (\<exists>name attrs. xml_StartElement name attrs \<in> set (pending p))"
    using Parse_state_inv(2) [OF assms] by auto
next
  fix name attrs rest
  assume st: "starts (pending p) = (name, attrs) # rest"
  with Parse_nodes(1) [OF assms] have h: "0 < length h" by simp
  then have "Root d = Some 0" using Parse_state_inv(2) [OF assms] by auto
  moreover have "Name (h ! 0) = Local name" using Parse_nodes(2) [OF assms h] st by simp
  moreover have "Parent (h ! 0) = None"
    using Parse_state_inv(1) [OF assms] h by (cases "Parent (h ! 0)") (auto simp: tree_inv_def)
  ultimately show "\<exists>r. Root d = Some r \<and> r < length h \<and> Name (h ! r) = Local name \<and> Parent (h ! r) = None"
    using h by auto
qed

theorem C5_root_witness:
  "Parse NewDOMParser sample_sp sample_sd \<lparr>pending = example_reserved, final = io_EOF\<rparr> =
     Inr (Some (\<lparr>Root = Some 0, ProcInst = [], Directives = []\<rparr>, example_reserved_heap), None) \<and>
   fst (hd (starts example_reserved)) = \<lparr>Space = ''http://www.w3.org/2000/svg'', Local = ''root''\<rparr> \<and>
   Name (example_reserved_heap ! 0) = ''root'' \<and> Parent (example_reserved_heap ! 0) = None \<and>
   Parse NewDOMParser sample_sp sample_sd \<lparr>pending = [xml_Comment ''c''], final = io_EOF\<rparr> =
     Inr (Some (\<lparr>Root = None, ProcInst = [], Directives = []\<rparr>, []), None)"
proof -
  have 2: "Parse NewDOMParser sample_sp sample_sd \<lparr>pending = [xml_Comment ''c''], final = io_EOF\<rparr> =
     Inr (Some (\<lparr>Root = None, ProcInst = [], Directives = []\<rparr>, []), None)"
    by (simp add: eval_simps)
  have 3: "starts (pending \<lparr>pending = example_reserved, final = io_EOF\<rparr>) = (\<lparr>Space = ''http://www.w3.org/2000/svg'', Local = ''root''\<rparr>,
      snd (hd (starts example_reserved))) # []"
    by (simp add: example_reserved_def)
  from C5_root [OF Parse_example_reserved, THEN conjunct2, rule_format, OF 3]
    C5_root [OF 2, THEN conjunct1] 3
  show ?thesis
    by (simp add: Parse_example_reserved 2) (simp add: example_reserved_def)
qed

section \<open>Errors of the token source\<close>

text \<open>
  C6. When the error that ends the token sequence is not end-of-input, \<open>Parse\<close> returns
  that error and no Document, be it reported on the first pull (no token before it) or
  on a later one, after part of a tree was built. The builder gets to the failing pull
  when the tokens before it are balanced, which the decoder ensures (lemma
  \<open>run_balanced\<close>: otherwise the loop panics before it gets there). In no case does
  \<open>Parse\<close> return a Document.
\<close>

theorem C6_source_error:
  assumes "final p \<noteq> io_EOF"
  shows "(balanced (pending p) \<longrightarrow> Parse s sp sd p = Inr (None, Some (final p))) \<and>
    (\<forall>x err. Parse s sp sd p \<noteq> Inr (Some x, err))"
proof (intro conjI allI impI)
  assume "balanced (pending p)"
  then have "run s sp sd (pending p) init \<noteq> Inl NilPointerDereference"
    by (simp add: run_balanced)
  then obtain st where "run s sp sd (pending p) init = Inr st"
    by (cases "run s sp sd (pending p) init") (auto intro: panic.exhaust)
  with assms show "Parse s sp sd p = Inr (None, Some (final p))"
    by (cases "pending p") (simp_all add: Parse_run)
next
  fix x err
  show "Parse s sp sd p \<noteq> Inr (Some x, err)"
    using assms by (cases "pending p"; cases "run s sp sd (pending p) init") (auto simp: Parse_run)
qed

theorem C6_source_error_witness:
  "OtherError ''unexpected EOF'' \<noteq> io_EOF \<and> balanced [] \<and> balanced example_cut \<and>
   Parse NewDOMParser sample_sp sample_sd \<lparr>pending = [], final = OtherError ''unexpected EOF''\<rparr> =
     Inr (None, Some (OtherError ''unexpected EOF'')) \<and>
   Parse NewDOMParser sample_sp sample_sd \<lparr>pending = example_cut, final = OtherError ''unexpected EOF''\<rparr> =
     Inr (None, Some (OtherError ''unexpected EOF''))"
  using C6_source_error [of "\<lparr>pending = [], final = OtherError ''unexpected EOF''\<rparr>"
      NewDOMParser sample_sp sample_sd]
    C6_source_error [of "\<lparr>pending = example_cut, final = OtherError ''unexpected EOF''\<rparr>"
      NewDOMParser sample_sp sample_sd]
  by (simp add: balanced_def example_cut_def)

section \<open>Processing instructions and directives\<close>

text \<open>
  C8. A processing-instruction token replaces the Document's \<open>ProcInst\<close>, whatever it
  was, and a directive token appends to \<open>Directives\<close>. So the Document of a successful
  parse holds the last processing instruction of the sequence (the empty string if there
  is none) and all its directives, in their order.
\<close>

theorem C8_procinst_directives:
  "handleToken s sp sd (xml_ProcInst target inst) st =
     Inr (st\<lparr>doc := (doc st)\<lparr>ProcInst := sp target inst\<rparr>\<rparr>) \<and>
   handleToken s sp sd (xml_Directive dir) st =
     Inr (st\<lparr>doc := (doc st)\<lparr>Directives := Directives (doc st) @ [sd dir]\<rparr>\<rparr>) \<and>
   (Parse s sp sd p = Inr (Some (d, h), None) \<longrightarrow>
      Directives d = map sd (directives (pending p)) \<and>
      ProcInst d =
        (if procinsts (pending p) = [] then []
         else sp (fst (last (procinsts (pending p)))) (snd (last (procinsts (pending p))))))"
proof (intro conjI impI)
  assume "Parse s sp sd p = Inr (Some (d, h), None)"
  then obtain st where "run s sp sd (pending p) init = Inr st" "d = doc st"
    by (auto simp: Parse_success)
  with run_doc [OF this(1)]
  show "Directives d = map sd (directives (pending p))"
    and "ProcInst d =
        (if procinsts (pending p) = [] then []
         else sp (fst (last (procinsts (pending p)))) (snd (last (procinsts (pending p)))))"
    by (simp_all add: init_def new_Document_def)
qed (simp_all add: handle_ProcInst handle_Directive)

lemma Parse_example_prolog:
  "Parse NewDOMParser sample_sp sample_sd \<lparr>pending = example_prolog, final = io_EOF\<rparr> =
     Inr (Some (\<lparr>Root = Some 0, ProcInst = ''<?style href=a.css?>'',
                 Directives = [''<!DOCTYPE a>'', ''<!ELEMENT b>'']\<rparr>,
       [\<lparr>Document = DocRef, Parent = None, Name = ''a'', Attributes = [],
          Text = [], Children = []\<rparr>]), None)"
  by (simp add: example_prolog_def eval_simps)

theorem C8_procinst_directives_witness:
  "Parse NewDOMParser sample_sp sample_sd \<lparr>pending = example_prolog, final = io_EOF\<rparr> =
     Inr (Some (\<lparr>Root = Some 0, ProcInst = ''<?style href=a.css?>'',
                 Directives = [''<!DOCTYPE a>'', ''<!ELEMENT b>'']\<rparr>,
       [\<lparr>Document = DocRef, Parent = None, Name = ''a'', Attributes = [],
          Text = [], Children = []\<rparr>]), None) \<and>
   directives example_prolog = [''DOCTYPE a'', ''ELEMENT b''] \<and>
   procinsts example_prolog = [(''xml'', ''version=1.0''), (''style'', ''href=a.css'')] \<and>
   map sample_sd (directives example_prolog) = [''<!DOCTYPE a>'', ''<!ELEMENT b>''] \<and>
   sample_sp ''style'' ''href=a.css'' = ''<?style href=a.css?>''"
  using C8_procinst_directives [of NewDOMParser sample_sp sample_sd _ _ _ _
      "\<lparr>pending = example_prolog, final = io_EOF\<rparr>"
      "\<lparr>Root = Some 0, ProcInst = ''<?style href=a.css?>'',
                 Directives = [''<!DOCTYPE a>'', ''<!ELEMENT b>'']\<rparr>"
      "[\<lparr>Document = DocRef, Parent = None, Name = ''a'', Attributes = [],
          Text = [], Children = []\<rparr>]"]
  by (simp add: Parse_example_prolog) (simp add: example_prolog_def)

section \<open>Tokens without a case\<close>

text \<open>
  C10. A token of a kind the \<^verbatim>\<open>switch\<close> has no case for, that is a comment, leaves
  the whole state as it is: the Document, the cursor and every node. The loop ends in
  the same state with the comment as without it.
\<close>

theorem C10_other_tokens:
  "(\<not> handled t \<longrightarrow> handleToken s sp sd t st = Inr st) \<and>
   handleToken s sp sd (xml_Comment c) st = Inr st \<and>
   run s sp sd (ts @ xml_Comment c # us) st = run s sp sd (ts @ us) st"
proof (intro conjI impI)
  assume "\<not> handled t"
  then show "handleToken s sp sd t st = Inr st"
    by (cases t) (simp_all add: handle_Comment)
next
  show "handleToken s sp sd (xml_Comment c) st = Inr st" by (rule handle_Comment)
next
  show "run s sp sd (ts @ xml_Comment c # us) st = run s sp sd (ts @ us) st"
    by (simp add: run_append handle_Comment split: sum.splits)
qed

theorem C10_other_tokens_witness:
  "\<not> handled (xml_Comment '' note '') \<and>
   handleToken NewDOMParser sample_sp sample_sd (xml_Comment '' note '') (example_open_state ''old'') =
     Inr (example_open_state ''old'') \<and>
   run NewDOMParser sample_sp sample_sd (example_open @ xml_Comment '' note '' # []) init =
     Inr (example_open_state ''old'')"
  using C10_other_tokens [of "xml_Comment '' note ''" NewDOMParser sample_sp sample_sd
      "example_open_state ''old''" "'' note ''" example_open "[]"]
    C10_other_tokens [of "xml_Comment '' note ''" NewDOMParser sample_sp sample_sd
      init "'' note ''" example_open "[]"]
  by (simp add: run_example_open)

section \<open>End-elements and the cursor\<close>

lemma nested_balanced: "nested_from stk ts \<Longrightarrow> balanced_from (length stk) ts"
  by (induction stk ts rule: nested_from.induct) (auto split: list.splits)

lemma run_Inr_cases:
  "run s sp sd ts st \<noteq> Inl NilPointerDereference \<Longrightarrow> \<exists>st'. run s sp sd ts st = Inr st'"
  by (cases "run s sp sd ts st") (auto intro: panic.exhaust)

lemma Parse_balanced: "(Parse s sp sd p = Inl NilPointerDereference) = (\<not> balanced (pending p))"
proof (cases "pending p")
  case Nil
  then show ?thesis by (simp add: Parse_run balanced_def)
next
  case (Cons t ts)
  show ?thesis
  proof (cases "run s sp sd (pending p) init")
    case (Inl pn)
    then have "run s sp sd (pending p) init = Inl NilPointerDereference" by (cases pn) simp
    with Cons run_balanced [of s sp sd "pending p"] show ?thesis by (simp add: Parse_run)
  next
    case (Inr st)
    with Cons run_balanced [of s sp sd "pending p"] show ?thesis by (simp add: Parse_run)
  qed
qed

text \<open>
  C9. On a balanced sequence, where every end-element finds an element still open (as
  in every sequence well nested by name), the loop never panics: whenever an
  end-element is processed, the loop has reached a state whose cursor is non-nil, so
  \<^verbatim>\<open>e = e.Parent\<close> reads the parent of a node. Without the precondition the read is
  of a nil cursor: an end-element in a state with no cursor panics, every unbalanced
  sequence makes the loop panic, and \<open>Parse\<close> panics exactly on the unbalanced
  sequences.
\<close>

theorem C9_end_element_cursor:
  "(nested_from [] ts \<longrightarrow> balanced ts) \<and>
   (balanced ts \<longrightarrow>
      run s sp sd ts init \<noteq> Inl NilPointerDereference \<and>
      (\<forall>ts1 name ts2. ts = ts1 @ xml_EndElement name # ts2 \<longrightarrow>
         (\<exists>st. run s sp sd ts1 init = Inr st \<and> e st \<noteq> None))) \<and>
   (e st = None \<longrightarrow> handleToken s sp sd (xml_EndElement name) st = Inl NilPointerDereference) \<and>
   (\<not> balanced ts \<longrightarrow> run s sp sd ts init = Inl NilPointerDereference) \<and>
   (Parse s sp sd p = Inl NilPointerDereference) = (\<not> balanced (pending p))"
proof (intro conjI allI impI)
  assume "nested_from [] ts"
  from nested_balanced [OF this] show "balanced ts" by (simp add: balanced_def)
next
  assume "balanced ts"
  then show "run s sp sd ts init \<noteq> Inl NilPointerDereference" by (simp add: run_balanced)
next
  fix ts1 name ts2
  assume b: "balanced ts" and ts: "ts = ts1 @ xml_EndElement name # ts2"
  then have ok: "run s sp sd (ts1 @ xml_EndElement name # ts2) init \<noteq> Inl NilPointerDereference"
    by (simp add: run_balanced)
  then have "run s sp sd ts1 init \<noteq> Inl NilPointerDereference"
    by (auto simp: run_append)
  then obtain st1 where st1: "run s sp sd ts1 init = Inr st1"
    using run_Inr_cases by blast
  with ok have "handleToken s sp sd (xml_EndElement name) st1 \<noteq> Inl NilPointerDereference"
    by (auto simp: run_append)
  then have "e st1 \<noteq> None" by (cases "e st1") (simp_all add: handle_End)
  with st1 show "\<exists>st. run s sp sd ts1 init = Inr st \<and> e st \<noteq> None" by blast
next
  assume "e st = None"
  then show "handleToken s sp sd (xml_EndElement name) st = Inl NilPointerDereference"
    by (simp add: handle_End)
next
  assume "\<not> balanced ts"
  then show "run s sp sd ts init = Inl NilPointerDereference"
    using run_balanced [of s sp sd ts] by simp
next
  show "(Parse s sp sd p = Inl NilPointerDereference) = (\<not> balanced (pending p))"
    by (rule Parse_balanced)
qed

theorem C9_end_element_cursor_witness:
  "nested_from [] (example_open @ [xml_EndElement \<lparr>Space = [], Local = ''foo''\<rparr>]) \<and>
   balanced (example_open @ [xml_EndElement \<lparr>Space = [], Local = ''foo''\<rparr>]) \<and>
   run NewDOMParser sample_sp sample_sd example_open init = Inr (example_open_state ''old'') \<and>
   e (example_open_state ''old'') = Some 0 \<and>
   run NewDOMParser sample_sp sample_sd
       (example_open @ [xml_EndElement \<lparr>Space = [], Local = ''foo''\<rparr>]) init =
     Inr ((example_open_state ''old'')\<lparr>e := None\<rparr>) \<and>
   e init = None \<and>
   handleToken NewDOMParser sample_sp sample_sd (xml_EndElement \<lparr>Space = [], Local = ''foo''\<rparr>) init =
     Inl NilPointerDereference \<and>
   \<not> balanced [xml_EndElement \<lparr>Space = [], Local = ''foo''\<rparr>] \<and>
   Parse NewDOMParser sample_sp sample_sd
       \<lparr>pending = [xml_EndElement \<lparr>Space = [], Local = ''foo''\<rparr>], final = io_EOF\<rparr> =
     Inl NilPointerDereference"
proof -
  have n: "nested_from [] (example_open @ [xml_EndElement \<lparr>Space = [], Local = ''foo''\<rparr>])"
    by (simp add: example_open_def)
  have u: "\<not> balanced [xml_EndElement \<lparr>Space = [], Local = ''foo''\<rparr>]"
    by (simp add: balanced_def)
  note 1 = C9_end_element_cursor [of "example_open @ [xml_EndElement \<lparr>Space = [], Local = ''foo''\<rparr>]"
      NewDOMParser sample_sp sample_sd init "\<lparr>Space = [], Local = ''foo''\<rparr>"
      "\<lparr>pending = [xml_EndElement \<lparr>Space = [], Local = ''foo''\<rparr>], final = io_EOF\<rparr>"]
  from 1 n have b: "balanced (example_open @ [xml_EndElement \<lparr>Space = [], Local = ''foo''\<rparr>])"
    by blast
  have r: "run NewDOMParser sample_sp sample_sd
       (example_open @ [xml_EndElement \<lparr>Space = [], Local = ''foo''\<rparr>]) init =
     Inr ((example_open_state ''old'')\<lparr>e := None\<rparr>)"
    by (simp add: run_append run_example_open handle_End) (simp add: example_open_state_def)
  from 1 u have "Parse NewDOMParser sample_sp sample_sd
       \<lparr>pending = [xml_EndElement \<lparr>Space = [], Local = ''foo''\<rparr>], final = io_EOF\<rparr> =
     Inl NilPointerDereference"
    by simp
  moreover from 1 have "handleToken NewDOMParser sample_sp sample_sd
      (xml_EndElement \<lparr>Space = [], Local = ''foo''\<rparr>) init = Inl NilPointerDereference"
    by (simp add: init_def)
  ultimately show ?thesis
    using n b u r by (simp add: run_example_open) (simp add: example_open_state_def init_def)
qed

section \<open>The shape of the tree\<close>

lemma run_split:
  assumes "run s sp sd (ts @ us) st = Inr st'"
  shows "\<exists>st1. run s sp sd ts st = Inr st1 \<and> run s sp sd us st1 = Inr st'"
  using assms by (cases "run s sp sd ts st") (simp_all add: run_append)

lemma filter_upt_sorted: "sorted (filter P [0..<n]) \<and> distinct (filter P [0..<n])"
  by (simp add: sorted_wrt_filter)

lemma Parse_parent_stable:
  assumes "Parse s sp sd p = Inr (Some (d, h), None)"
    and "pending p = ts @ us" and "run s sp sd ts init = Inr st"
  shows "length (heap st) \<le> length h"
    and "c < length (heap st) \<Longrightarrow> Parent (h ! c) = Parent (heap st ! c)"
proof -
  from assms(1) obtain stf where f: "run s sp sd (pending p) init = Inr stf" "h = heap stf"
    by (auto simp: Parse_success)
  from run_split [OF f(1) [unfolded assms(2)]] assms(3)
  have "run s sp sd us st = Inr stf" by auto
  from run_frame [OF this] f(2)
  show "length (heap st) \<le> length h"
    and "c < length (heap st) \<Longrightarrow> Parent (h ! c) = Parent (heap st ! c)"
    by simp_all
qed

lemma Parse_parent_created:
  assumes "Parse s sp sd p = Inr (Some (d, h), None)"
    and "pending p = ts @ xml_StartElement name attrs # us" and "run s sp sd ts init = Inr st"
  shows "length (heap st) < length h" and "Parent (h ! length (heap st)) = e st"
proof -
  from assms(1) obtain stf where f: "run s sp sd (pending p) init = Inr stf" "h = heap stf"
    by (auto simp: Parse_success)
  from run_split [OF f(1) [unfolded assms(2)]] assms(3)
  have "run s sp sd (xml_StartElement name attrs # us) st = Inr stf" by auto
  then obtain st1 where 1: "handleToken s sp sd (xml_StartElement name attrs) st = Inr st1"
    and 2: "run s sp sd us st1 = Inr stf"
    by (auto split: sum.splits)
  from handle_length [OF 1] have l: "length (heap st1) = Suc (length (heap st))" by simp
  with run_frame [OF 2] handle_new_node(3) [OF 1] f(2)
  show "length (heap st) < length h" and "Parent (h ! length (heap st)) = e st"
    by simp_all
qed

text \<open>
  C7. In the store \<open>h\<close> of a successful parse, node \<open>j\<close> is the node of the \<open>j\<close>-th
  start-element of the sequence, so the numbering is document order; its attributes are
  those of the tag, in the tag's order. A parent is created before its child, so there
  is no cycle. The children of a node are exactly the nodes whose \<open>Parent\<close> it is, each
  once and in document order. In the tree under the root (the nodes reached from the
  root through \<open>Children\<close>), every node but the root has a \<open>Parent\<close>, which is in the
  tree and is the one node that lists it as a child. The \<open>Parent\<close> of a node is the
  cursor at the moment its start-element is processed, and in every later state of the
  build it has the value it has at the end.

  An element that starts after the root was closed is created with no parent and is
  listed nowhere; it is not a node of the tree under the root.
\<close>

theorem C7_tree:
  assumes "Parse s sp sd p = Inr (Some (d, h), None)"
  shows "length h = length (starts (pending p)) \<and>
    (\<forall>j<length h.
       Name (h ! j) = Local (fst (starts (pending p) ! j)) \<and>
       Attributes (h ! j) = map convAttr (snd (starts (pending p) ! j))) \<and>
    (\<forall>c<length h. \<forall>q. Parent (h ! c) = Some q \<longrightarrow> q < c) \<and>
    (\<forall>q<length h.
       Children (h ! q) = filter (\<lambda>c. Parent (h ! c) = Some q) [0..<length h] \<and>
       sorted (Children (h ! q)) \<and> distinct (Children (h ! q))) \<and>
    (\<forall>r c. Root d = Some r \<and> inTree h r c \<and> c \<noteq> r \<longrightarrow>
       c < length h \<and>
       (\<exists>q. inTree h r q \<and> q < length h \<and> Parent (h ! c) = Some q \<and>
          (\<forall>q'<length h. c \<in> set (Children (h ! q')) \<longleftrightarrow> q' = q))) \<and>
    (\<forall>ts us st. pending p = ts @ us \<and> run s sp sd ts init = Inr st \<longrightarrow>
       length (heap st) \<le> length h \<and>
       (\<forall>c<length (heap st). Parent (h ! c) = Parent (heap st ! c))) \<and>
    (\<forall>ts name attrs us st.
       pending p = ts @ xml_StartElement name attrs # us \<and> run s sp sd ts init = Inr st \<longrightarrow>
       length (heap st) < length h \<and> Parent (h ! length (heap st)) = e st)"
proof -
  note ti = Parse_state_inv(1) [OF assms]
  have nodes: "\<forall>j<length h.
       Name (h ! j) = Local (fst (starts (pending p) ! j)) \<and>
       Attributes (h ! j) = map convAttr (snd (starts (pending p) ! j))"
    using Parse_nodes(2,3) [OF assms] by blast
  have up: "\<forall>c<length h. \<forall>q. Parent (h ! c) = Some q \<longrightarrow> q < c"
    using ti by (simp add: tree_inv_def)
  have chi: "Children (h ! q) = filter (\<lambda>c. Parent (h ! c) = Some q) [0..<length h] \<and>
       sorted (Children (h ! q)) \<and> distinct (Children (h ! q))" if "q < length h" for q
  proof -
    have "Children (h ! q) = filter (\<lambda>c. Parent (h ! c) = Some q) [0..<length h]"
      using ti that by (simp add: tree_inv_def)
    with filter_upt_sorted [of "\<lambda>c. Parent (h ! c) = Some q" "length h"] show ?thesis by simp
  qed
  have tree: "c < length h \<and>
       (\<exists>q. inTree h r q \<and> q < length h \<and> Parent (h ! c) = Some q \<and>
          (\<forall>q'<length h. c \<in> set (Children (h ! q')) \<longleftrightarrow> q' = q))"
    if "Root d = Some r \<and> inTree h r c \<and> c \<noteq> r" for r c
  proof -
    from that Parse_state_inv(2) [OF assms] have r: "r < length h"
      by (cases "h = []") auto
    from that have c: "inTree h r c" "c \<noteq> r" by simp_all
    from inTree_bound [OF ti r c(1)] have cl: "c < length h" .
    from inTree_parent [OF ti r c] obtain q where
      q: "inTree h r q" "q < length h" "Parent (h ! c) = Some q" by blast
    have "\<forall>q'<length h. c \<in> set (Children (h ! q')) \<longleftrightarrow> q' = q"
      using q(3) cl by (auto simp: tree_inv_child [OF ti])
    with cl q show ?thesis by blast
  qed
  have stable: "length (heap st) \<le> length h \<and>
       (\<forall>c<length (heap st). Parent (h ! c) = Parent (heap st ! c))"
    if "pending p = ts @ us \<and> run s sp sd ts init = Inr st" for ts us st
    using Parse_parent_stable [OF assms, of ts us st] that by blast
  have created: "length (heap st) < length h \<and> Parent (h ! length (heap st)) = e st"
    if "pending p = ts @ xml_StartElement name attrs # us \<and> run s sp sd ts init = Inr st"
    for ts name attrs us st
    using Parse_parent_created [OF assms, of ts name attrs us st] that by blast
  from Parse_nodes(1) [OF assms] nodes up chi tree stable created show ?thesis
    by blast
qed

lemma Parse_example_tree:
  "Parse NewDOMParser sample_sp sample_sd \<lparr>pending = example_tree, final = io_EOF\<rparr> =
     Inr (Some (\<lparr>Root = Some 0, ProcInst = [], Directives = []\<rparr>, example_tree_heap), None)"
  by (simp add: example_tree_def example_tree_heap_def eval_simps TrimSpace_def
      trimPrefixes.simps unicodeSpace_def)

theorem C7_tree_witness:
  "Parse NewDOMParser sample_sp sample_sd \<lparr>pending = example_tree, final = io_EOF\<rparr> =
     Inr (Some (\<lparr>Root = Some 0, ProcInst = [], Directives = []\<rparr>, example_tree_heap), None) \<and>
   length example_tree_heap = 5 \<and>
   map Name example_tree_heap = [''a'', ''b'', ''c'', ''d'', ''g''] \<and>
   map Attribute_Name (Attributes (example_tree_heap ! 0)) = [''x'', ''y''] \<and>
   Children (example_tree_heap ! 0) = [1, 2] \<and>
   Children (example_tree_heap ! 2) = [3] \<and>
   inTree example_tree_heap 0 3 \<and>
   Parent (example_tree_heap ! 3) = Some 2 \<and>
   \<not> inTree example_tree_heap 0 4 \<and>
   run NewDOMParser sample_sp sample_sd (take 2 example_tree) init =
     Inr \<lparr>doc = \<lparr>Root = Some 0, ProcInst = [], Directives = []\<rparr>,
          heap = [(example_tree_heap ! 0)\<lparr>Text := [], Children := [1]\<rparr>, example_tree_heap ! 1],
          e = Some 1\<rparr> \<and>
   Parent (example_tree_heap ! 1) = Some 0"
proof -
  note T = C7_tree [OF Parse_example_tree]
  let ?h = example_tree_heap
  have len: "length ?h = 5" by (simp add: example_tree_heap_def)
  have st: "starts example_tree =
      [(\<lparr>Space = [], Local = ''a''\<rparr>,
         [\<lparr>Attr_Name = \<lparr>Space = [], Local = ''x''\<rparr>, Attr_Value = ''1''\<rparr>,
          \<lparr>Attr_Name = \<lparr>Space = [], Local = ''y''\<rparr>, Attr_Value = ''2''\<rparr>]),
       (\<lparr>Space = [], Local = ''b''\<rparr>, []), (\<lparr>Space = [], Local = ''c''\<rparr>, []),
       (\<lparr>Space = [], Local = ''d''\<rparr>, []), (\<lparr>Space = [], Local = ''g''\<rparr>, [])]"
    by (simp add: example_tree_def)
  from T have nodes: "\<forall>j<5. Name (?h ! j) = Local (fst (starts example_tree ! j)) \<and>
      Attributes (?h ! j) = map convAttr (snd (starts example_tree ! j))"
    by (simp add: len)
  have names: "map Name ?h = [''a'', ''b'', ''c'', ''d'', ''g'']"
  proof (rule nth_equalityI)
    show "length (map Name ?h) = length [''a'', ''b'', ''c'', ''d'', ''g'']" by (simp add: len)
    fix i assume "i < length (map Name ?h)"
    then have i: "i < 5" by (simp add: len)
    then have "i = 0 \<or> i = 1 \<or> i = 2 \<or> i = 3 \<or> i = 4" by arith
    with nodes i show "map Name ?h ! i = [''a'', ''b'', ''c'', ''d'', ''g''] ! i"
      by (auto simp: len st)
  qed
  have attrs: "map Attribute_Name (Attributes (?h ! 0)) = [''x'', ''y'']"
    using nodes by (simp add: st convAttr_def attrName_eval)
  have P: "Parent (?h ! 0) = None" "Parent (?h ! 1) = Some 0" "Parent (?h ! 2) = Some 0"
    "Parent (?h ! 3) = Some 2" "Parent (?h ! 4) = None"
    by (simp_all add: example_tree_heap_def)
  have upt5: "[0..<5] = [0, 1, 2, 3, 4::nat]" by (simp add: upt_rec)
  from T have chi: "\<forall>q<5. Children (?h ! q) = filter (\<lambda>c. Parent (?h ! c) = Some q) [0..<5]"
    by (simp add: len)
  have P1: "Parent (?h ! Suc 0) = Some 0" using P(2) by simp
  have c0: "Children (?h ! 0) = [1, 2]" and c2: "Children (?h ! 2) = [3]"
    using chi by (simp_all add: upt5 P P1)
  have t2: "inTree ?h 0 2" by (rule inTree.child [OF inTree.root]) (simp add: c0)
  have t3: "inTree ?h 0 3" by (rule inTree.child [OF t2]) (simp add: c2)
  from T have tree: "inTree ?h 0 4 \<and> (4::nat) \<noteq> 0 \<longrightarrow> (\<exists>q. Parent (?h ! 4) = Some q)"
    by auto
  have not4: "\<not> inTree ?h 0 4" using tree P(5) by auto
  have r2: "run NewDOMParser sample_sp sample_sd (take 2 example_tree) init =
     Inr \<lparr>doc = \<lparr>Root = Some 0, ProcInst = [], Directives = []\<rparr>,
          heap = [(?h ! 0)\<lparr>Text := [], Children := [1]\<rparr>, ?h ! 1],
          e = Some 1\<rparr>"
    by (simp add: example_tree_def example_tree_heap_def eval_simps)
  show ?thesis
    using Parse_example_tree len names attrs c0 c2 t3 P(2,4) not4 r2 by simp
qed

end
